theory Spec2Isabelle
  imports Main
begin

section \<open>Kaleidoscope front end: lexer, parser and code generation\<close>

text \<open>
  A shallow embedding of \<^verbatim>\<open>src/main.cpp\<close>. The program keeps all of its state in
  file-level statics; the embedding gathers them, with the three standard streams, in
  one record that every operation takes and returns.
\<close>

subsection \<open>Values of the program\<close>

text \<open>
  A \<^verbatim>\<open>double\<close> is only ever produced by \<^verbatim>\<open>strtod\<close> and only ever stored; it is kept
  symbolically as the text handed to \<^verbatim>\<open>strtod\<close>. The zero-initialised static
  \<^verbatim>\<open>NumVal\<close> is \<open>strtod ''0''\<close>.
\<close>

datatype double = strtod string

datatype ExprAST =
    NumberExprAST double
  | VariableExprAST string
  | BinaryExprAST char ExprAST ExprAST
  | CallExprAST string "ExprAST list"

datatype PrototypeAST = PrototypeAST string "string list"

datatype FunctionAST = FunctionAST PrototypeAST ExprAST

text \<open>
  The backend (LLVM) is outside the program. Its objects are modelled by what the
  program hands to it: a value handle is a constant, a function argument or the result
  of the \<open>i\<close>-th instruction requested from the builder; the builder is the list of
  the instructions requested so far; a module is the list of its functions in the order
  of their creation.
\<close>

datatype llvm_type = DoubleTy

datatype linkage = ExternalLinkage

datatype llvm_value = ConstantFP double | Argument string nat | Instruction nat

record llvm_function =
  fn_name :: string
  fn_return_type :: llvm_type
  fn_params :: "llvm_type list"
  fn_is_var_arg :: bool
  fn_linkage :: linkage

datatype instr =
    FAdd llvm_value llvm_value string
  | FSub llvm_value llvm_value string
  | FMul llvm_value llvm_value string
  | FCmpULT llvm_value llvm_value string
  | UIToFP llvm_value llvm_type string
  | Call llvm_function "llvm_value list" string

type_synonym llvm_module = "llvm_function list"

record state =
  stdin :: "char list"
  stdout :: string
  stderr :: string
  LastChar :: int
  IdentifierStr :: string
  NumVal :: double
  CurTok :: int
  BinopPrecedence :: "char \<rightharpoonup> int"
  TheModule :: "llvm_module option"
  NamedValues :: "string \<rightharpoonup> llvm_value option"
  Builder :: "instr list"

text \<open>
  The statics as the C++ runtime initialises them: \<^verbatim>\<open>LastChar\<close> is \<^verbatim>\<open>' '\<close>, numbers
  are zero, strings and maps are empty and the \<^verbatim>\<open>unique_ptr\<close> \<^verbatim>\<open>TheModule\<close> is null.
\<close>

definition initial_state :: "char list \<Rightarrow> state" where
  "initial_state inp =
     \<lparr> stdin = inp, stdout = [], stderr = [], LastChar = of_char CHR '' '', IdentifierStr = [],
       NumVal = strtod ''0'', CurTok = 0, BinopPrecedence = Map.empty,
       TheModule = None, NamedValues = Map.empty, Builder = [] \<rparr>"

subsection \<open>Lexer\<close>

abbreviation EOF :: int where "EOF \<equiv> - 1"

abbreviation tok_eof :: int where "tok_eof \<equiv> - 1"
abbreviation tok_def :: int where "tok_def \<equiv> - 2"
abbreviation tok_extern :: int where "tok_extern \<equiv> - 3"
abbreviation tok_identifier :: int where "tok_identifier \<equiv> - 4"
abbreviation tok_number :: int where "tok_number \<equiv> - 5"

text \<open>The character classes of \<^verbatim>\<open><cctype>\<close> in the C locale, on \<^verbatim>\<open>int\<close>.\<close>

definition isspace :: "int \<Rightarrow> bool" where
  "isspace c \<longleftrightarrow> c = 32 \<or> (9 \<le> c \<and> c \<le> 13)"

definition isdigit :: "int \<Rightarrow> bool" where
  "isdigit c \<longleftrightarrow> 48 \<le> c \<and> c \<le> 57"

definition isalpha :: "int \<Rightarrow> bool" where
  "isalpha c \<longleftrightarrow> (65 \<le> c \<and> c \<le> 90) \<or> (97 \<le> c \<and> c \<le> 122)"

definition isalnum :: "int \<Rightarrow> bool" where
  "isalnum c \<longleftrightarrow> isalpha c \<or> isdigit c"

definition isascii :: "int \<Rightarrow> bool" where
  "isascii c \<longleftrightarrow> 0 \<le> c \<and> c \<le> 127"

text \<open>
  \<^verbatim>\<open>getchar\<close>: the next byte of the input as a value in \<open>0..255\<close>, or \<^verbatim>\<open>EOF\<close> once
  the input is used up (and then \<^verbatim>\<open>EOF\<close> again on every later call).
\<close>

definition getchar :: "state \<Rightarrow> int \<times> state" where
  "getchar s =
     (case stdin s of
        [] \<Rightarrow> (EOF, s)
      | c # cs \<Rightarrow> (of_char c, s\<lparr>stdin := cs\<rparr>))"

text \<open>\<^verbatim>\<open>while (isspace(LastChar)) LastChar = getchar();\<close>\<close>

function skip_space :: "state \<Rightarrow> state" where
  "skip_space s =
     (if isspace (LastChar s)
      then (case getchar s of (c, s1) \<Rightarrow> skip_space (s1\<lparr>LastChar := c\<rparr>))
      else s)"
  by pat_completeness auto
termination
  by (relation "measure (\<lambda>s. length (stdin s) + (if isspace (LastChar s) then 1 else 0))")
     (auto simp: getchar_def isspace_def split: list.splits)

text \<open>\<^verbatim>\<open>while (isalnum((LastChar = getchar()))) IdentifierStr += LastChar;\<close>\<close>

function read_identifier :: "state \<Rightarrow> state" where
  "read_identifier s =
     (case getchar s of (c, s1) \<Rightarrow>
        (let s2 = s1\<lparr>LastChar := c\<rparr> in
         if isalnum c
         then read_identifier (s2\<lparr>IdentifierStr := IdentifierStr s2 @ [char_of c]\<rparr>)
         else s2))"
  by pat_completeness auto
termination
  by (relation "measure (\<lambda>s. length (stdin s))")
     (auto simp: getchar_def isalnum_def isalpha_def isdigit_def split: list.splits)

text \<open>
  \<^verbatim>\<open>do { NumStr += LastChar; LastChar = getchar(); }
  while (isdigit(LastChar) || LastChar == '.');\<close>
\<close>

function read_number :: "string \<Rightarrow> state \<Rightarrow> string \<times> state" where
  "read_number NumStr s =
     (let NumStr1 = NumStr @ [char_of (LastChar s)] in
      case getchar s of (c, s1) \<Rightarrow>
        (let s2 = s1\<lparr>LastChar := c\<rparr> in
         if isdigit c \<or> c = of_char CHR ''.'' then read_number NumStr1 s2 else (NumStr1, s2)))"
  by pat_completeness auto
termination
  by (relation "measure (\<lambda>(NumStr, s). length (stdin s))")
     (auto simp: getchar_def isdigit_def split: list.splits)

text \<open>
  \<^verbatim>\<open>do LastChar = getchar();
  while (LastChar != EOF && LastChar != '\n' && LastChar != '\r');\<close>
\<close>

function skip_comment :: "state \<Rightarrow> state" where
  "skip_comment s =
     (case getchar s of (c, s1) \<Rightarrow>
        (let s2 = s1\<lparr>LastChar := c\<rparr> in
         if c \<noteq> EOF \<and> c \<noteq> of_char CHR 0x0A \<and> c \<noteq> of_char CHR 0x0D then skip_comment s2 else s2))"
  by pat_completeness auto
termination
  by (relation "measure (\<lambda>s. length (stdin s))")
     (auto simp: getchar_def split: list.splits)

declare skip_space.simps [simp del] read_identifier.simps [simp del]
  read_number.simps [simp del] skip_comment.simps [simp del]

lemma stdin_skip_space: "length (stdin (skip_space s)) \<le> length (stdin s)"
proof (induction s rule: skip_space.induct)
  case (1 s)
  show ?case
  proof (cases "isspace (LastChar s)")
    case False
    then show ?thesis by (subst skip_space.simps) simp
  next
    case True
    obtain c s1 where g: "getchar s = (c, s1)" by (cases "getchar s")
    from g have "length (stdin s1) \<le> length (stdin s)"
      by (auto simp: getchar_def split: list.splits)
    with "1.IH" [OF True g [symmetric]] True g show ?thesis
      by (subst skip_space.simps) simp
  qed
qed

lemma stdin_skip_comment:
  "LastChar (skip_comment s) \<noteq> EOF \<Longrightarrow> length (stdin (skip_comment s)) < length (stdin s)"
proof (induction s rule: skip_comment.induct)
  case (1 s)
  obtain c s1 where g: "getchar s = (c, s1)" by (cases "getchar s")
  show ?case
  proof (cases "c \<noteq> EOF \<and> c \<noteq> of_char CHR 0x0A \<and> c \<noteq> of_char CHR 0x0D")
    case True
    from g True have lt: "length (stdin s1) < length (stdin s)"
      by (auto simp: getchar_def split: list.splits)
    from True g have eq: "skip_comment s = skip_comment (s1\<lparr>LastChar := c\<rparr>)"
      by (subst skip_comment.simps) simp
    from "1.prems" eq have "LastChar (skip_comment (s1\<lparr>LastChar := c\<rparr>)) \<noteq> EOF" by simp
    from "1.IH" [OF g [symmetric] refl True this] lt eq show ?thesis by simp
  next
    case False
    with g have eq: "skip_comment s = s1\<lparr>LastChar := c\<rparr>"
      by (subst skip_comment.simps) auto
    with "1.prems" have "c \<noteq> EOF" by simp
    with g have "length (stdin s1) < length (stdin s)"
      by (auto simp: getchar_def split: list.splits)
    with eq show ?thesis by simp
  qed
qed

text \<open>
  \<^verbatim>\<open>gettok\<close>. The only recursive call follows a comment that did not end the input,
  and such a comment has consumed at least one character.
\<close>

function gettok :: "state \<Rightarrow> int \<times> state" where
  "gettok s0 =
     (let s = skip_space s0 in
      if isalpha (LastChar s) then
        (let s1 = read_identifier (s\<lparr>IdentifierStr := [char_of (LastChar s)]\<rparr>) in
         if IdentifierStr s1 = ''def'' then (tok_def, s1)
         else if IdentifierStr s1 = ''extern'' then (tok_extern, s1)
         else (tok_identifier, s1))
      else if isdigit (LastChar s) \<or> LastChar s = of_char CHR ''.'' then
        (case read_number [] s of (NumStr, s1) \<Rightarrow>
           (tok_number, s1\<lparr>NumVal := strtod NumStr\<rparr>))
      else
        (let s1 = (if LastChar s = of_char CHR ''#'' then skip_comment s else s) in
         if LastChar s = of_char CHR ''#'' \<and> LastChar s1 \<noteq> EOF then gettok s1
         else if LastChar s1 = EOF then (tok_eof, s1)
         else (case getchar s1 of (c, s2) \<Rightarrow> (LastChar s1, s2\<lparr>LastChar := c\<rparr>))))"
  by pat_completeness auto
termination
proof (relation "measure (\<lambda>s. length (stdin s))")
  show "wf (measure (\<lambda>s. length (stdin s)))" by simp
next
  fix s0 s s1
  assume s: "s = skip_space s0"
    and s1: "s1 = (if LastChar s = of_char CHR ''#'' then skip_comment s else s)"
    and c: "LastChar s = of_char CHR ''#'' \<and> LastChar s1 \<noteq> EOF"
  from s1 c have "length (stdin s1) < length (stdin s)"
    using stdin_skip_comment [of s] by simp
  also from s have "\<dots> \<le> length (stdin s0)"
    using stdin_skip_space [of s0] by simp
  finally show "(s1, s0) \<in> measure (\<lambda>s. length (stdin s))" by simp
qed

declare gettok.simps [simp del]

text \<open>
  What is left for the lexer to read: the unread input, and one more while the
  look-ahead character is not \<^verbatim>\<open>EOF\<close>. Every token other than the end token uses
  some of it up.
\<close>

definition lexmeasure :: "state \<Rightarrow> nat" where
  "lexmeasure s = length (stdin s) + (if LastChar s = EOF then 0 else 1)"

lemma getchar_lexmeasure:
  "getchar s = (c, s1) \<Longrightarrow> lexmeasure (s1\<lparr>LastChar := c\<rparr>) \<le> length (stdin s)"
  by (auto simp: getchar_def lexmeasure_def split: list.splits)

lemma getchar_stdin:
  "getchar s = (c, s1) \<Longrightarrow> length (stdin s1) \<le> length (stdin s)"
  by (auto simp: getchar_def split: list.splits)

lemma lexmeasure_skip_space: "lexmeasure (skip_space s) \<le> lexmeasure s"
proof (induction s rule: skip_space.induct)
  case (1 s)
  show ?case
  proof (cases "isspace (LastChar s)")
    case False
    then show ?thesis by (subst skip_space.simps) simp
  next
    case True
    obtain c s1 where g: "getchar s = (c, s1)" by (cases "getchar s")
    from True have "LastChar s \<noteq> EOF" by (auto simp: isspace_def)
    then have "length (stdin s) < lexmeasure s" by (simp add: lexmeasure_def)
    with getchar_lexmeasure [OF g] "1.IH" [OF True g [symmetric]]
    have "lexmeasure (skip_space (s1\<lparr>LastChar := c\<rparr>)) \<le> lexmeasure s" by simp
    with True g show ?thesis by (subst skip_space.simps) simp
  qed
qed

lemma lexmeasure_read_identifier: "lexmeasure (read_identifier s) \<le> length (stdin s)"
proof (induction s rule: read_identifier.induct)
  case (1 s)
  obtain c s1 where g: "getchar s = (c, s1)" by (cases "getchar s")
  show ?case
  proof (cases "isalnum c")
    case True
    let ?s2 = "s1\<lparr>LastChar := c\<rparr>"
    let ?s3 = "?s2\<lparr>IdentifierStr := IdentifierStr ?s2 @ [char_of c]\<rparr>"
    from "1.IH" [OF g [symmetric] refl True]
    have "lexmeasure (read_identifier ?s3) \<le> length (stdin s1)" by simp
    with getchar_stdin [OF g] have "lexmeasure (read_identifier ?s3) \<le> length (stdin s)" by simp
    with True g show ?thesis by (subst read_identifier.simps) (simp add: Let_def)
  next
    case False
    with g getchar_lexmeasure [OF g] show ?thesis
      by (subst read_identifier.simps) (simp add: Let_def)
  qed
qed

lemma lexmeasure_read_number: "lexmeasure (snd (read_number NumStr s)) \<le> length (stdin s)"
proof (induction NumStr s rule: read_number.induct)
  case (1 NumStr s)
  obtain c s1 where g: "getchar s = (c, s1)" by (cases "getchar s")
  show ?case
  proof (cases "isdigit c \<or> c = of_char CHR ''.''")
    case True
    from "1.IH" [OF refl g [symmetric] refl True] getchar_stdin [OF g]
    have "lexmeasure (snd (read_number (NumStr @ [char_of (LastChar s)]) (s1\<lparr>LastChar := c\<rparr>)))
            \<le> length (stdin s)" by simp
    with True g show ?thesis by (subst read_number.simps) (simp add: Let_def)
  next
    case False
    with g getchar_lexmeasure [OF g] show ?thesis
      by (subst read_number.simps) (simp add: Let_def)
  qed
qed

lemma lexmeasure_skip_comment: "lexmeasure (skip_comment s) \<le> length (stdin s)"
proof (induction s rule: skip_comment.induct)
  case (1 s)
  obtain c s1 where g: "getchar s = (c, s1)" by (cases "getchar s")
  show ?case
  proof (cases "c \<noteq> EOF \<and> c \<noteq> of_char CHR 0x0A \<and> c \<noteq> of_char CHR 0x0D")
    case True
    from "1.IH" [OF g [symmetric] refl True] getchar_stdin [OF g]
    have "lexmeasure (skip_comment (s1\<lparr>LastChar := c\<rparr>)) \<le> length (stdin s)" by simp
    with True g show ?thesis by (subst skip_comment.simps) (simp add: Let_def)
  next
    case False
    with g getchar_lexmeasure [OF g] show ?thesis
      by (subst skip_comment.simps) (auto simp add: Let_def)
  qed
qed

lemma lexmeasure_gettok:
  "fst (gettok s0) \<noteq> tok_eof \<Longrightarrow> lexmeasure (snd (gettok s0)) < lexmeasure s0"
proof (induction s0 rule: gettok.induct)
  case (1 s0)
  define s where "s = skip_space s0"
  have le: "lexmeasure s \<le> lexmeasure s0" by (simp add: s_def lexmeasure_skip_space)
  consider (ident) "isalpha (LastChar s)"
    | (num) "\<not> isalpha (LastChar s)" "isdigit (LastChar s) \<or> LastChar s = of_char CHR ''.''"
    | (rest) "\<not> isalpha (LastChar s)" "\<not> (isdigit (LastChar s) \<or> LastChar s = of_char CHR ''.'')"
    by blast
  then show ?case
  proof cases
    case ident
    then have "LastChar s \<noteq> EOF" by (auto simp: isalpha_def)
    then have m: "length (stdin s) < lexmeasure s" by (simp add: lexmeasure_def)
    let ?s1 = "read_identifier (s\<lparr>IdentifierStr := [char_of (LastChar s)]\<rparr>)"
    have "lexmeasure ?s1 \<le> length (stdin s)"
      using lexmeasure_read_identifier [of "s\<lparr>IdentifierStr := [char_of (LastChar s)]\<rparr>"] by simp
    with m le have "lexmeasure ?s1 < lexmeasure s0" by simp
    with ident show ?thesis
      by (subst gettok.simps) (simp add: Let_def s_def [symmetric])
  next
    case num
    then have "LastChar s \<noteq> EOF" by (auto simp: isdigit_def)
    then have m: "length (stdin s) < lexmeasure s" by (simp add: lexmeasure_def)
    obtain NumStr s1 where r: "read_number [] s = (NumStr, s1)" by (cases "read_number [] s")
    with lexmeasure_read_number [of "[]" s] have "lexmeasure s1 \<le> length (stdin s)" by simp
    with m le have "lexmeasure (s1\<lparr>NumVal := strtod NumStr\<rparr>) < lexmeasure s0"
      by (simp add: lexmeasure_def)
    with num r show ?thesis
      by (subst gettok.simps) (simp add: Let_def s_def [symmetric])
  next
    case rest
    define s1 where "s1 = (if LastChar s = of_char CHR ''#'' then skip_comment s else s)"
    have le1: "lexmeasure s1 \<le> lexmeasure s"
      using lexmeasure_skip_comment [of s] by (auto simp: s1_def lexmeasure_def)
    show ?thesis
    proof (cases "LastChar s = of_char CHR ''#'' \<and> LastChar s1 \<noteq> EOF")
      case True
      then have "s1 = skip_comment s" by (simp add: s1_def)
      with True rest have eq: "gettok s0 = gettok s1"
        by (subst gettok.simps) (simp add: Let_def s_def [symmetric])
      with "1.prems" have "fst (gettok s1) \<noteq> tok_eof" by simp
      from "1.IH" [OF s_def rest(1) rest(2) s1_def True this] le1 le eq
      show ?thesis by simp
    next
      case False
      show ?thesis
      proof (cases "LastChar s1 = EOF")
        case True
        with rest False have "gettok s0 = (tok_eof, s1)"
          by (subst gettok.simps) (auto simp add: Let_def s_def [symmetric] s1_def)
        with "1.prems" show ?thesis by simp
      next
        case ne: False
        obtain c s2 where g: "getchar s1 = (c, s2)" by (cases "getchar s1")
        from ne have m: "length (stdin s1) < lexmeasure s1" by (simp add: lexmeasure_def)
        from rest False ne g have "gettok s0 = (LastChar s1, s2\<lparr>LastChar := c\<rparr>)"
          by (subst gettok.simps) (auto simp add: Let_def s_def [symmetric] s1_def)
        with getchar_lexmeasure [OF g] m le1 le show ?thesis by simp
      qed
    qed
  qed
qed

subsection \<open>Parser\<close>

definition getNextToken :: "state \<Rightarrow> int \<times> state" where
  "getNextToken s = (case gettok s of (t, s1) \<Rightarrow> (t, s1\<lparr>CurTok := t\<rparr>))"

text \<open>
  \<^verbatim>\<open>LogError\<close> writes one line to the error stream and returns a null pointer, which is
  \<open>None\<close> at each of its three result types.
\<close>

definition LogError :: "string \<Rightarrow> state \<Rightarrow> ExprAST option \<times> state" where
  "LogError Str s = (None, s\<lparr>stderr := stderr s @ ''LogError: '' @ Str @ [CHR 0x0A]\<rparr>)"

definition LogErrorP :: "string \<Rightarrow> state \<Rightarrow> PrototypeAST option \<times> state" where
  "LogErrorP Str s = (None, snd (LogError Str s))"

definition LogErrorV :: "string \<Rightarrow> state \<Rightarrow> llvm_value option \<times> state" where
  "LogErrorV Str s = (None, snd (LogError Str s))"

text \<open>
  \<^verbatim>\<open>std::map::operator[]\<close>: the value stored under the key; a key that is absent is
  first inserted with the value-initialised value.
\<close>

definition map_subscript :: "'v \<Rightarrow> ('k \<rightharpoonup> 'v) \<Rightarrow> 'k \<Rightarrow> 'v \<times> ('k \<rightharpoonup> 'v)" where
  "map_subscript dflt m k = (case m k of None \<Rightarrow> (dflt, m(k \<mapsto> dflt)) | Some v \<Rightarrow> (v, m))"

definition GetTokPrecedence :: "state \<Rightarrow> int \<times> state" where
  "GetTokPrecedence s =
     (if \<not> isascii (CurTok s) then (- 1, s)
      else (case map_subscript 0 (BinopPrecedence s) (char_of (CurTok s)) of
              (TokPrec, m) \<Rightarrow>
                (let s1 = s\<lparr>BinopPrecedence := m\<rparr> in
                 if TokPrec \<le> 0 then (- 1, s1) else (TokPrec, s1))))"

definition ParseNumberExpr :: "state \<Rightarrow> ExprAST option \<times> state" where
  "ParseNumberExpr s =
     (let Result = NumberExprAST (NumVal s) in
      case getNextToken s of (_, s1) \<Rightarrow> (Some Result, s1))"

text \<open>
  The expression parser is mutually recursive through the state. Each function takes a
  bound on the depth of the calls still allowed; the outer \<open>None\<close> says that the bound
  was reached, the inner one is the null pointer of a failed parse. The two loops are
  recursive functions of their own: \<open>ParseIdentifierExpr_loop\<close> is the
  \<^verbatim>\<open>while (1)\<close> over the arguments of a call, and \<open>ParseBinOpRHS\<close> calls itself for its
  next iteration.
\<close>

fun ParseExpression :: "nat \<Rightarrow> state \<Rightarrow> (ExprAST option \<times> state) option"
  and ParseParenExpr :: "nat \<Rightarrow> state \<Rightarrow> (ExprAST option \<times> state) option"
  and ParseIdentifierExpr :: "nat \<Rightarrow> state \<Rightarrow> (ExprAST option \<times> state) option"
  and ParseIdentifierExpr_loop ::
    "nat \<Rightarrow> ExprAST list \<Rightarrow> state \<Rightarrow> (ExprAST list option \<times> state) option"
  and ParsePrimary :: "nat \<Rightarrow> state \<Rightarrow> (ExprAST option \<times> state) option"
  and ParseBinOpRHS :: "nat \<Rightarrow> int \<Rightarrow> ExprAST \<Rightarrow> state \<Rightarrow> (ExprAST option \<times> state) option"
where
  "ParseExpression 0 s = None"
| "ParseExpression (Suc n) s =
     (case ParsePrimary n s of
        None \<Rightarrow> None
      | Some (None, s1) \<Rightarrow> Some (None, s1)
      | Some (Some LHS, s1) \<Rightarrow> ParseBinOpRHS n 0 LHS s1)"
| "ParseParenExpr 0 s = None"
| "ParseParenExpr (Suc n) s =
     (case getNextToken s of (_, s1) \<Rightarrow>
        (case ParseExpression n s1 of
           None \<Rightarrow> None
         | Some (None, s2) \<Rightarrow> Some (None, s2)
         | Some (Some V, s2) \<Rightarrow>
             if CurTok s2 \<noteq> of_char CHR '')'' then Some (LogError (''expected ')'' @ [CHR 0x27]) s2)
             else (case getNextToken s2 of (_, s3) \<Rightarrow> Some (Some V, s3))))"
| "ParseIdentifierExpr 0 s = None"
| "ParseIdentifierExpr (Suc n) s =
     (let IdName = IdentifierStr s in
      case getNextToken s of (_, s1) \<Rightarrow>
        if CurTok s1 \<noteq> of_char CHR ''('' then Some (Some (VariableExprAST IdName), s1)
        else (case getNextToken s1 of (_, s2) \<Rightarrow>
          if CurTok s2 \<noteq> of_char CHR '')'' then
            (case ParseIdentifierExpr_loop n [] s2 of
               None \<Rightarrow> None
             | Some (None, s3) \<Rightarrow> Some (None, s3)
             | Some (Some Args, s3) \<Rightarrow>
                 (case getNextToken s3 of (_, s4) \<Rightarrow> Some (Some (CallExprAST IdName Args), s4)))
          else (case getNextToken s2 of (_, s4) \<Rightarrow> Some (Some (CallExprAST IdName []), s4))))"
| "ParseIdentifierExpr_loop 0 Args s = None"
| "ParseIdentifierExpr_loop (Suc n) Args s =
     (case ParseExpression n s of
        None \<Rightarrow> None
      | Some (None, s1) \<Rightarrow> Some (None, s1)
      | Some (Some Arg, s1) \<Rightarrow>
          if CurTok s1 = of_char CHR '')'' then Some (Some (Args @ [Arg]), s1)
          else if CurTok s1 \<noteq> of_char CHR '','' then
            Some (None, snd (LogError ''Expected ')' or ',' in argument list.'' s1))
          else (case getNextToken s1 of (_, s2) \<Rightarrow> ParseIdentifierExpr_loop n (Args @ [Arg]) s2))"
| "ParsePrimary 0 s = None"
| "ParsePrimary (Suc n) s =
     (if CurTok s = tok_identifier then ParseIdentifierExpr n s
      else if CurTok s = tok_number then Some (ParseNumberExpr s)
      else if CurTok s = of_char CHR ''('' then ParseParenExpr n s
      else Some (LogError ''unknown token when expecting an expression'' s))"
| "ParseBinOpRHS 0 ExprPrec LHS s = None"
| "ParseBinOpRHS (Suc n) ExprPrec LHS s =
     (case GetTokPrecedence s of (TokPrec, s1) \<Rightarrow>
        if TokPrec < ExprPrec then Some (Some LHS, s1)
        else
          (let BinOp = CurTok s1 in
           case getNextToken s1 of (_, s2) \<Rightarrow>
             (case ParsePrimary n s2 of
                None \<Rightarrow> None
              | Some (None, s3) \<Rightarrow> Some (None, s3)
              | Some (Some RHS, s3) \<Rightarrow>
                  (case GetTokPrecedence s3 of (NextPrec, s4) \<Rightarrow>
                     if TokPrec < NextPrec then
                       (case ParseBinOpRHS n (TokPrec + 1) RHS s4 of
                          None \<Rightarrow> None
                        | Some (None, s5) \<Rightarrow> Some (None, s5)
                        | Some (Some RHS', s5) \<Rightarrow>
                            ParseBinOpRHS n ExprPrec (BinaryExprAST (char_of BinOp) LHS RHS') s5)
                     else ParseBinOpRHS n ExprPrec (BinaryExprAST (char_of BinOp) LHS RHS) s4))))"

text \<open>
  \<^verbatim>\<open>while (getNextToken() == tok_identifier) ArgNames.push_back(IdentifierStr);\<close>
\<close>

lemma lexmeasure_getNextToken:
  "getNextToken s = (t, s1) \<Longrightarrow> t \<noteq> tok_eof \<Longrightarrow> lexmeasure s1 < lexmeasure s"
  using lexmeasure_gettok [of s]
  by (auto simp: getNextToken_def lexmeasure_def split: prod.splits)

function ParsePrototype_loop :: "string list \<Rightarrow> state \<Rightarrow> string list \<times> state" where
  "ParsePrototype_loop ArgNames s =
     (case getNextToken s of (t, s1) \<Rightarrow>
        if t = tok_identifier then ParsePrototype_loop (ArgNames @ [IdentifierStr s1]) s1
        else (ArgNames, s1))"
  by pat_completeness auto
termination
  by (relation "measure (\<lambda>(ArgNames, s). lexmeasure s)")
     (auto dest: lexmeasure_getNextToken [OF sym])

declare ParsePrototype_loop.simps [simp del]

definition ParsePrototype :: "state \<Rightarrow> PrototypeAST option \<times> state" where
  "ParsePrototype s =
     (if CurTok s \<noteq> tok_identifier then LogErrorP ''Expected function name in prototype'' s
      else
        (let FnName = IdentifierStr s in
         case getNextToken s of (_, s1) \<Rightarrow>
           if CurTok s1 \<noteq> of_char CHR ''('' then LogErrorP ''Expected '(' in prototype'' s1
           else
             (case ParsePrototype_loop [] s1 of (ArgNames, s2) \<Rightarrow>
                if CurTok s2 \<noteq> of_char CHR '')'' then LogErrorP ''Expected ')' in prototype'' s2
                else (case getNextToken s2 of (_, s3) \<Rightarrow>
                        (Some (PrototypeAST FnName ArgNames), s3)))))"

definition ParseDefinition :: "nat \<Rightarrow> state \<Rightarrow> (FunctionAST option \<times> state) option" where
  "ParseDefinition n s =
     (case getNextToken s of (_, s1) \<Rightarrow>
        (case ParsePrototype s1 of
           (None, s2) \<Rightarrow> Some (None, s2)
         | (Some Proto, s2) \<Rightarrow>
             (case ParseExpression n s2 of
                None \<Rightarrow> None
              | Some (None, s3) \<Rightarrow> Some (None, s3)
              | Some (Some E, s3) \<Rightarrow> Some (Some (FunctionAST Proto E), s3))))"

definition ParseTopLevelExpr :: "nat \<Rightarrow> state \<Rightarrow> (FunctionAST option \<times> state) option" where
  "ParseTopLevelExpr n s =
     (case ParseExpression n s of
        None \<Rightarrow> None
      | Some (None, s1) \<Rightarrow> Some (None, s1)
      | Some (Some E, s1) \<Rightarrow>
          (let Proto = PrototypeAST ''__anon_expr'' [] in Some (Some (FunctionAST Proto E), s1)))"

definition ParseExtern :: "state \<Rightarrow> PrototypeAST option \<times> state" where
  "ParseExtern s = (case getNextToken s of (_, s1) \<Rightarrow> ParsePrototype s1)"

subsection \<open>Top-level driver\<close>

definition fprintf_stdout :: "string \<Rightarrow> state \<Rightarrow> state" where
  "fprintf_stdout Str s = s\<lparr>stdout := stdout s @ Str\<rparr>"

definition HandleDefinition :: "nat \<Rightarrow> state \<Rightarrow> state option" where
  "HandleDefinition n s =
     (case ParseDefinition n s of
        None \<Rightarrow> None
      | Some (Some _, s1) \<Rightarrow>
          Some (fprintf_stdout (''Parsed a function definition.'' @ [CHR 0x0A]) s1)
      | Some (None, s1) \<Rightarrow> Some (snd (getNextToken s1)))"

definition HandleExtern :: "state \<Rightarrow> state" where
  "HandleExtern s =
     (case ParseExtern s of
        (Some _, s1) \<Rightarrow> fprintf_stdout (''Parsed a function extern.'' @ [CHR 0x0A]) s1
      | (None, s1) \<Rightarrow> snd (getNextToken s1))"

definition HandleTopLevelExpr :: "nat \<Rightarrow> state \<Rightarrow> state option" where
  "HandleTopLevelExpr n s =
     (case ParseTopLevelExpr n s of
        None \<Rightarrow> None
      | Some (Some _, s1) \<Rightarrow>
          Some (fprintf_stdout (''Parsed a function top-level expression.'' @ [CHR 0x0A]) s1)
      | Some (None, s1) \<Rightarrow> Some (snd (getNextToken s1)))"

text \<open>
  \<^verbatim>\<open>MainLoop\<close>, with a bound on the number of iterations; each top-level unit is
  parsed under the bound that is left.
\<close>

fun MainLoop :: "nat \<Rightarrow> state \<Rightarrow> state option" where
  "MainLoop 0 s = None"
| "MainLoop (Suc n) s =
     (let s1 = fprintf_stdout ''ready> '' s in
      if CurTok s1 = tok_eof then Some s1
      else if CurTok s1 = of_char CHR '';'' then MainLoop n (snd (getNextToken s1))
      else if CurTok s1 = tok_def then
        (case HandleDefinition n s1 of None \<Rightarrow> None | Some s2 \<Rightarrow> MainLoop n s2)
      else if CurTok s1 = tok_extern then MainLoop n (HandleExtern s1)
      else
        (case HandleTopLevelExpr n s1 of None \<Rightarrow> None | Some s2 \<Rightarrow> MainLoop n s2))"

text \<open>
  \<^verbatim>\<open>main\<close>: the four assignments to the precedence table, the first prompt, the first
  token, the loop. The program state before \<^verbatim>\<open>main\<close> is \<open>initial_state\<close> of the input.
\<close>

definition install_binops :: "state \<Rightarrow> state" where
  "install_binops s =
     s\<lparr>BinopPrecedence :=
         (BinopPrecedence s)(CHR ''<'' \<mapsto> 10, CHR ''+'' \<mapsto> 20, CHR ''-'' \<mapsto> 20, CHR ''*'' \<mapsto> 40)\<rparr>"

definition main :: "nat \<Rightarrow> state \<Rightarrow> state option" where
  "main n s =
     (let s1 = install_binops s;
          s2 = fprintf_stdout ''ready> '' s1
      in case getNextToken s2 of (_, s3) \<Rightarrow> MainLoop n s3)"

subsection \<open>Code generation\<close>

text \<open>
  The builder: each \<^verbatim>\<open>Create...\<close> call adds one instruction after those requested
  before and returns the handle of the new instruction.
\<close>

definition Builder_Insert :: "instr \<Rightarrow> state \<Rightarrow> llvm_value \<times> state" where
  "Builder_Insert I s = (Instruction (length (Builder s)), s\<lparr>Builder := Builder s @ [I]\<rparr>)"

definition CreateFAdd :: "llvm_value \<Rightarrow> llvm_value \<Rightarrow> string \<Rightarrow> state \<Rightarrow> llvm_value \<times> state" where
  "CreateFAdd L R Name = Builder_Insert (FAdd L R Name)"

definition CreateFSub :: "llvm_value \<Rightarrow> llvm_value \<Rightarrow> string \<Rightarrow> state \<Rightarrow> llvm_value \<times> state" where
  "CreateFSub L R Name = Builder_Insert (FSub L R Name)"

definition CreateFMul :: "llvm_value \<Rightarrow> llvm_value \<Rightarrow> string \<Rightarrow> state \<Rightarrow> llvm_value \<times> state" where
  "CreateFMul L R Name = Builder_Insert (FMul L R Name)"

definition CreateFCmpULT :: "llvm_value \<Rightarrow> llvm_value \<Rightarrow> string \<Rightarrow> state \<Rightarrow> llvm_value \<times> state" where
  "CreateFCmpULT L R Name = Builder_Insert (FCmpULT L R Name)"

definition CreateUIToFP :: "llvm_value \<Rightarrow> llvm_type \<Rightarrow> string \<Rightarrow> state \<Rightarrow> llvm_value \<times> state" where
  "CreateUIToFP V DestTy Name = Builder_Insert (UIToFP V DestTy Name)"

definition CreateCall ::
  "llvm_function \<Rightarrow> llvm_value list \<Rightarrow> string \<Rightarrow> state \<Rightarrow> llvm_value \<times> state" where
  "CreateCall Callee Args Name = Builder_Insert (Call Callee Args Name)"

text \<open>
  \<^verbatim>\<open>Module::getFunction\<close> is the function of that name, if the module has one;
  \<^verbatim>\<open>Function::arg_size\<close> is the number of its parameters.
\<close>

definition getFunction :: "llvm_module \<Rightarrow> string \<Rightarrow> llvm_function option" where
  "getFunction M Name = find (\<lambda>F. fn_name F = Name) M"

definition arg_size :: "llvm_function \<Rightarrow> nat" where
  "arg_size F = length (fn_params F)"

text \<open>
  \<^verbatim>\<open>TheModule\<close> is a \<^verbatim>\<open>unique_ptr\<close> that starts out null; \<^verbatim>\<open>TheModule->getFunction\<close>
  through the null pointer is the one fault of code generation.
\<close>

datatype fault = NullModule

text \<open>
  The four \<^verbatim>\<open>codegen\<close> overrides of \<^verbatim>\<open>ExprAST\<close>, by the class of the node.
  \<open>CallExprAST_codegen_loop\<close> is the \<^verbatim>\<open>for\<close> loop over the arguments of a call.
\<close>

fun codegen :: "ExprAST \<Rightarrow> state \<Rightarrow> fault + llvm_value option \<times> state"
  and CallExprAST_codegen_loop ::
    "ExprAST list \<Rightarrow> llvm_value list \<Rightarrow> state \<Rightarrow> fault + llvm_value list option \<times> state"
where
  "codegen (NumberExprAST Val) s = Inr (Some (ConstantFP Val), s)"
| "codegen (VariableExprAST Name) s =
     (case map_subscript None (NamedValues s) Name of (V, m) \<Rightarrow>
        (let s1 = s\<lparr>NamedValues := m\<rparr> in
         if V = None then Inr (V, snd (LogErrorV ''Unknown variable name'' s1))
         else Inr (V, s1)))"
| "codegen (BinaryExprAST Op LHS RHS) s =
     (case codegen LHS s of
        Inl f \<Rightarrow> Inl f
      | Inr (L, s1) \<Rightarrow>
          (case codegen RHS s1 of
             Inl f \<Rightarrow> Inl f
           | Inr (R, s2) \<Rightarrow>
               (case (L, R) of
                  (Some l, Some r) \<Rightarrow>
                    if Op = CHR ''+'' then Inr (apfst Some (CreateFAdd l r ''addtmp'' s2))
                    else if Op = CHR ''-'' then Inr (apfst Some (CreateFSub l r ''subtmp'' s2))
                    else if Op = CHR ''*'' then Inr (apfst Some (CreateFMul l r ''multmp'' s2))
                    else if Op = CHR ''<'' then
                      (case CreateFCmpULT l r ''cmptmp'' s2 of (l', s3) \<Rightarrow>
                         Inr (apfst Some (CreateUIToFP l' DoubleTy ''booltmp'' s3)))
                    else Inr (LogErrorV ''invalid binary operator'' s2)
                | _ \<Rightarrow> Inr (None, s2))))"
| "codegen (CallExprAST Callee Args) s =
     (case TheModule s of
        None \<Rightarrow> Inl NullModule
      | Some M \<Rightarrow>
          (case getFunction M Callee of
             None \<Rightarrow> Inr (LogErrorV ''unknown function referenced.'' s)
           | Some CalleeF \<Rightarrow>
               if arg_size CalleeF \<noteq> length Args
               then Inr (LogErrorV ''Incorrect number of arguments passed.'' s)
               else
                 (case CallExprAST_codegen_loop Args [] s of
                    Inl f \<Rightarrow> Inl f
                  | Inr (None, s1) \<Rightarrow> Inr (None, s1)
                  | Inr (Some ArgsV, s1) \<Rightarrow>
                      Inr (apfst Some (CreateCall CalleeF ArgsV ''calltmp'' s1)))))"
| "CallExprAST_codegen_loop [] ArgsV s = Inr (Some ArgsV, s)"
| "CallExprAST_codegen_loop (Arg # Args) ArgsV s =
     (case codegen Arg s of
        Inl f \<Rightarrow> Inl f
      | Inr (None, s1) \<Rightarrow> Inr (None, s1)
      | Inr (Some V, s1) \<Rightarrow> CallExprAST_codegen_loop Args (ArgsV @ [V]) s1)"

text \<open>
  \<^verbatim>\<open>PrototypeAST::codegen\<close>. \<^verbatim>\<open>Function::Create\<close> makes the function and, when it is
  given a module, adds it to the module. The body of \<^verbatim>\<open>PrototypeAST::codegen\<close> ends
  after the creation without a \<^verbatim>\<open>return\<close> statement, so the call has no return value.
\<close>

record llvm_function_type =
  ft_result :: llvm_type
  ft_params :: "llvm_type list"
  ft_is_var_arg :: bool

definition FunctionType_get :: "llvm_type \<Rightarrow> llvm_type list \<Rightarrow> bool \<Rightarrow> llvm_function_type" where
  "FunctionType_get Result Params isVarArg =
     \<lparr> ft_result = Result, ft_params = Params, ft_is_var_arg = isVarArg \<rparr>"

definition Function_Create ::
  "llvm_function_type \<Rightarrow> linkage \<Rightarrow> string \<Rightarrow> state \<Rightarrow> llvm_function \<times> state" where
  "Function_Create FT Linkage Name s =
     (let F = \<lparr> fn_name = Name, fn_return_type = ft_result FT, fn_params = ft_params FT,
                fn_is_var_arg = ft_is_var_arg FT, fn_linkage = Linkage \<rparr>
      in (F, s\<lparr>TheModule := map_option (\<lambda>M. M @ [F]) (TheModule s)\<rparr>))"

datatype 'a returned = Returned 'a | No_return_statement

definition PrototypeAST_codegen ::
  "PrototypeAST \<Rightarrow> state \<Rightarrow> llvm_function returned \<times> state" where
  "PrototypeAST_codegen P s =
     (case P of PrototypeAST Name Args \<Rightarrow>
        (let Doubles = replicate (length Args) DoubleTy;
             FT = FunctionType_get DoubleTy Doubles False
         in case Function_Create FT ExternalLinkage Name s of (F, s1) \<Rightarrow>
              (No_return_statement, s1)))"

section \<open>Notions for the statements\<close>

text \<open>
  The lexer writes \<^verbatim>\<open>LastChar\<close>, \<^verbatim>\<open>IdentifierStr\<close> and \<^verbatim>\<open>NumVal\<close> and reads the input;
  it leaves the rest of the state alone.
\<close>

definition lexer_frame :: "state \<Rightarrow> state \<Rightarrow> bool" where
  "lexer_frame s s' \<longleftrightarrow>
     stdout s' = stdout s \<and> stderr s' = stderr s \<and> CurTok s' = CurTok s
     \<and> BinopPrecedence s' = BinopPrecedence s \<and> TheModule s' = TheModule s
     \<and> NamedValues s' = NamedValues s \<and> Builder s' = Builder s"

text \<open>
  The precedence a token is given by the table, an absent entry read as 0, as
  \<^verbatim>\<open>operator[]\<close> reads it.
\<close>

definition precedence_entry :: "state \<Rightarrow> char \<Rightarrow> int" where
  "precedence_entry s k = (case BinopPrecedence s k of None \<Rightarrow> 0 | Some p \<Rightarrow> p)"

text \<open>
  What the parser leaves alone: the module, the binding table and the builder; the
  precedence of every character; and the entries the precedence table has.
\<close>

definition parser_frame :: "state \<Rightarrow> state \<Rightarrow> bool" where
  "parser_frame s s' \<longleftrightarrow>
     TheModule s' = TheModule s \<and> NamedValues s' = NamedValues s \<and> Builder s' = Builder s
     \<and> precedence_entry s' = precedence_entry s
     \<and> dom (BinopPrecedence s) \<subseteq> dom (BinopPrecedence s')"

text \<open>
  One table extends another by zero entries: every character has the entry it had, or had
  none and now has the entry 0.
\<close>

definition zero_extension :: "(char \<rightharpoonup> int) \<Rightarrow> (char \<rightharpoonup> int) \<Rightarrow> bool" where
  "zero_extension m m' \<longleftrightarrow> (\<forall>k. m' k = m k \<or> (m k = None \<and> m' k = Some 0))"

text \<open>
  The state in which \<^verbatim>\<open>main\<close> enters \<^verbatim>\<open>MainLoop\<close>, the prompt apart: the precedence table
  installed and the first token read.
\<close>

definition start_state :: "char list \<Rightarrow> state" where
  "start_state inp = snd (getNextToken (install_binops (initial_state inp)))"

text \<open>
  The state after the primary \<^verbatim>\<open>x\<close> of the input \<^verbatim>\<open>x;\<close>: the current token is \<^verbatim>\<open>;\<close>, which
  has no entry in the table.
\<close>

definition semicolon_state :: state where
  "semicolon_state = snd (the (ParsePrimary 2 (start_state ''x;'')))"

text \<open>States for the examples: a module that declares \<^verbatim>\<open>foo\<close> with two parameters, and
  the definition \<^verbatim>\<open>def foo(a) a;\<close> about to be handled with an empty module.\<close>

definition example_module :: llvm_module where
  "example_module =
     [\<lparr> fn_name = ''foo'', fn_return_type = DoubleTy, fn_params = [DoubleTy, DoubleTy],
        fn_is_var_arg = False, fn_linkage = ExternalLinkage \<rparr>]"

definition example_state :: state where
  "example_state = (initial_state [])\<lparr>TheModule := Some example_module\<rparr>"

definition def_state :: state where
  "def_state = (start_state ''def foo(a) a;'')\<lparr>TheModule := Some []\<rparr>"

section \<open>Properties\<close>

subsection \<open>The lexer at the end of the input\<close>

lemma getchar_empty: "stdin s = [] \<Longrightarrow> getchar s = (EOF, s)"
  by (simp add: getchar_def)

lemma skip_space_no_space: "\<not> isspace (LastChar s) \<Longrightarrow> skip_space s = s"
  by (subst skip_space.simps) simp

lemma skip_space_empty:
  "stdin s = [] \<Longrightarrow> skip_space s = (if isspace (LastChar s) then s\<lparr>LastChar := EOF\<rparr> else s)"
  by (subst skip_space.simps)
     (simp add: getchar_empty skip_space_no_space isspace_def)

lemma read_identifier_empty: "stdin s = [] \<Longrightarrow> read_identifier s = s\<lparr>LastChar := EOF\<rparr>"
  by (subst read_identifier.simps)
     (simp add: getchar_empty isalnum_def isalpha_def isdigit_def)

lemma read_number_empty:
  "stdin s = [] \<Longrightarrow>
   read_number NumStr s = (NumStr @ [char_of (LastChar s)], s\<lparr>LastChar := EOF\<rparr>)"
  by (subst read_number.simps) (simp add: getchar_empty isdigit_def)

lemma skip_comment_empty: "stdin s = [] \<Longrightarrow> skip_comment s = s\<lparr>LastChar := EOF\<rparr>"
  by (subst skip_comment.simps) (simp add: getchar_empty)

lemma gettok_at_EOF: "LastChar s = EOF \<Longrightarrow> gettok s = (tok_eof, s)"
  by (subst gettok.simps)
     (simp add: skip_space_no_space isspace_def isalpha_def isdigit_def)

lemma gettok_empty: "stdin s = [] \<Longrightarrow> LastChar (snd (gettok s)) = EOF"
  by (subst gettok.simps)
     (auto simp add: Let_def skip_space_empty read_identifier_empty read_number_empty
        skip_comment_empty getchar_empty)

text \<open>
  Claim C9. Once the input is exhausted, which the lexer knows by its look-ahead
  character \<^verbatim>\<open>LastChar\<close> being \<^verbatim>\<open>EOF\<close>, \<open>gettok\<close> returns \<open>tok_eof\<close> and leaves the
  state as it is, so every later call returns \<open>tok_eof\<close> again. The lexer gets there:
  when no unread input is left, one call of \<open>gettok\<close> leaves \<^verbatim>\<open>LastChar\<close> at \<^verbatim>\<open>EOF\<close>.
\<close>

theorem gettok_eof_stable:
  "(LastChar s = EOF \<longrightarrow> (\<forall>n. gettok (((\<lambda>s. snd (gettok s)) ^^ n) s) = (tok_eof, s)))
   \<and> (stdin s = [] \<longrightarrow> LastChar (snd (gettok s)) = EOF)"
proof (intro conjI impI allI)
  fix n
  assume e: "LastChar s = EOF"
  have "((\<lambda>s. snd (gettok s)) ^^ n) s = s"
    by (induction n) (simp_all add: gettok_at_EOF e)
  then show "gettok (((\<lambda>s. snd (gettok s)) ^^ n) s) = (tok_eof, s)"
    by (simp add: gettok_at_EOF e)
next
  assume "stdin s = []"
  then show "LastChar (snd (gettok s)) = EOF" by (rule gettok_empty)
qed

theorem gettok_eof_stable_witness:
  "stdin (initial_state ''x'') \<noteq> []
   \<and> fst (gettok (initial_state ''x'')) = tok_identifier
   \<and> stdin (snd (gettok (initial_state ''x''))) = []
   \<and> LastChar (snd (gettok (initial_state ''x''))) = EOF
   \<and> fst (gettok (((\<lambda>s. snd (gettok s)) ^^ 3) (snd (gettok (initial_state ''x''))))) = tok_eof
   \<and> stdin (initial_state []) = []
   \<and> LastChar (initial_state []) \<noteq> EOF
   \<and> LastChar (snd (gettok (initial_state []))) = EOF"
proof -
  have a: "stdin (initial_state ''x'') \<noteq> []" by (simp add: initial_state_def)
  have b: "fst (gettok (initial_state ''x'')) = tok_identifier" by code_simp
  have c: "stdin (snd (gettok (initial_state ''x''))) = []" by code_simp
  have d: "LastChar (snd (gettok (initial_state ''x''))) = EOF" by code_simp
  from gettok_eof_stable [of "snd (gettok (initial_state ''x''))"] d
  have e: "gettok (((\<lambda>s. snd (gettok s)) ^^ 3) (snd (gettok (initial_state ''x''))))
          = (tok_eof, snd (gettok (initial_state ''x'')))"
    by blast
  have f: "stdin (initial_state []) = []" "LastChar (initial_state []) \<noteq> EOF"
    by (simp_all add: initial_state_def)
  from gettok_eof_stable [of "initial_state []"] f(1)
  have g: "LastChar (snd (gettok (initial_state []))) = EOF" by blast
  from a b c d e f g show ?thesis by simp
qed

subsection \<open>Prototypes\<close>

text \<open>
  Claim C8. With the first token of \<^verbatim>\<open>foo(x y)\<close> read, \<open>ParsePrototype\<close> returns the
  prototype \<^verbatim>\<open>foo\<close> with the parameters \<^verbatim>\<open>x\<close> and \<^verbatim>\<open>y\<close>. On \<^verbatim>\<open>foo(x y\<close>, where the
  closing parenthesis is missing, it returns the null pointer, no prototype, and has
  written the diagnostic \<^verbatim>\<open>Expected ')' in prototype\<close>.
\<close>

theorem ParsePrototype_examples:
  "fst (ParsePrototype (snd (getNextToken (initial_state ''foo(x y)'')))) =
     Some (PrototypeAST ''foo'' [''x'', ''y''])
   \<and> fst (ParsePrototype (snd (getNextToken (initial_state ''foo(x y'')))) = None
   \<and> stderr (snd (ParsePrototype (snd (getNextToken (initial_state ''foo(x y''))))) =
     ''LogError: Expected ')' in prototype'' @ [CHR 0x0A]"
  by code_simp

subsection \<open>What lexing and parsing leave alone\<close>

lemma lexer_frame_getchar: "getchar s = (c, s1) \<Longrightarrow> lexer_frame s s1"
  by (auto simp: getchar_def lexer_frame_def split: list.splits)

lemma lexer_frame_skip_space: "lexer_frame s (skip_space s)"
proof (induction s rule: skip_space.induct)
  case (1 s)
  show ?case
  proof (cases "isspace (LastChar s)")
    case False
    then show ?thesis by (simp add: skip_space_no_space lexer_frame_def)
  next
    case True
    obtain c s1 where g: "getchar s = (c, s1)" by (cases "getchar s")
    from "1.IH" [OF True g [symmetric]] lexer_frame_getchar [OF g] True g
    show ?thesis by (subst skip_space.simps) (simp add: lexer_frame_def)
  qed
qed

lemma lexer_frame_read_identifier: "lexer_frame s (read_identifier s)"
proof (induction s rule: read_identifier.induct)
  case (1 s)
  obtain c s1 where g: "getchar s = (c, s1)" by (cases "getchar s")
  show ?case
  proof (cases "isalnum c")
    case True
    from "1.IH" [OF g [symmetric] refl True] lexer_frame_getchar [OF g] True g
    show ?thesis by (subst read_identifier.simps) (simp add: lexer_frame_def Let_def)
  next
    case False
    with lexer_frame_getchar [OF g] g
    show ?thesis by (subst read_identifier.simps) (simp add: lexer_frame_def Let_def)
  qed
qed

lemma lexer_frame_read_number: "lexer_frame s (snd (read_number NumStr s))"
proof (induction NumStr s rule: read_number.induct)
  case (1 NumStr s)
  obtain c s1 where g: "getchar s = (c, s1)" by (cases "getchar s")
  show ?case
  proof (cases "isdigit c \<or> c = of_char CHR ''.''")
    case True
    from "1.IH" [OF refl g [symmetric] refl True] lexer_frame_getchar [OF g] True g
    show ?thesis by (subst read_number.simps) (simp add: lexer_frame_def Let_def)
  next
    case False
    with lexer_frame_getchar [OF g] g
    show ?thesis by (subst read_number.simps) (simp add: lexer_frame_def Let_def)
  qed
qed

lemma lexer_frame_skip_comment: "lexer_frame s (skip_comment s)"
proof (induction s rule: skip_comment.induct)
  case (1 s)
  obtain c s1 where g: "getchar s = (c, s1)" by (cases "getchar s")
  show ?case
  proof (cases "c \<noteq> EOF \<and> c \<noteq> of_char CHR 0x0A \<and> c \<noteq> of_char CHR 0x0D")
    case True
    from "1.IH" [OF g [symmetric] refl True] lexer_frame_getchar [OF g] True g
    show ?thesis by (subst skip_comment.simps) (simp add: lexer_frame_def Let_def)
  next
    case False
    with lexer_frame_getchar [OF g] g
    show ?thesis by (subst skip_comment.simps) (auto simp add: lexer_frame_def Let_def)
  qed
qed

lemma lexer_frame_gettok: "lexer_frame s0 (snd (gettok s0))"
proof (induction s0 rule: gettok.induct)
  case (1 s0)
  define s where "s = skip_space s0"
  have f: "lexer_frame s0 s" by (simp add: s_def lexer_frame_skip_space)
  consider (ident) "isalpha (LastChar s)"
    | (num) "\<not> isalpha (LastChar s)" "isdigit (LastChar s) \<or> LastChar s = of_char CHR ''.''"
    | (rest) "\<not> isalpha (LastChar s)" "\<not> (isdigit (LastChar s) \<or> LastChar s = of_char CHR ''.'')"
    by blast
  then show ?case
  proof cases
    case ident
    with f lexer_frame_read_identifier [of "s\<lparr>IdentifierStr := [char_of (LastChar s)]\<rparr>"]
    show ?thesis
      by (subst gettok.simps) (simp add: Let_def s_def [symmetric] lexer_frame_def)
  next
    case num
    with f lexer_frame_read_number [of s "[]"]
    show ?thesis
      by (subst gettok.simps)
         (auto simp add: Let_def s_def [symmetric] lexer_frame_def split: prod.splits)
  next
    case rest
    define s1 where "s1 = (if LastChar s = of_char CHR ''#'' then skip_comment s else s)"
    have f1: "lexer_frame s0 s1"
      using f lexer_frame_skip_comment [of s] by (auto simp: s1_def lexer_frame_def)
    show ?thesis
    proof (cases "LastChar s = of_char CHR ''#'' \<and> LastChar s1 \<noteq> EOF")
      case True
      then have "s1 = skip_comment s" by (simp add: s1_def)
      with True rest have eq: "gettok s0 = gettok s1"
        by (subst gettok.simps) (simp add: Let_def s_def [symmetric])
      from "1.IH" [OF s_def rest(1) rest(2) s1_def True] f1 eq
      show ?thesis by (simp add: lexer_frame_def)
    next
      case False
      show ?thesis
      proof (cases "LastChar s1 = EOF")
        case True
        with rest False have "gettok s0 = (tok_eof, s1)"
          by (subst gettok.simps) (auto simp add: Let_def s_def [symmetric] s1_def)
        with f1 show ?thesis by simp
      next
        case ne: False
        obtain c s2 where g: "getchar s1 = (c, s2)" by (cases "getchar s1")
        from rest False ne g have "gettok s0 = (LastChar s1, s2\<lparr>LastChar := c\<rparr>)"
          by (subst gettok.simps) (auto simp add: Let_def s_def [symmetric] s1_def)
        with f1 lexer_frame_getchar [OF g] show ?thesis by (simp add: lexer_frame_def)
      qed
    qed
  qed
qed

lemma parser_frame_refl: "parser_frame s s"
  by (simp add: parser_frame_def)

lemma parser_frame_trans: "parser_frame s s1 \<Longrightarrow> parser_frame s1 s2 \<Longrightarrow> parser_frame s s2"
  by (auto simp: parser_frame_def)

lemma precedence_entry_cong:
  "BinopPrecedence s' = BinopPrecedence s \<Longrightarrow> precedence_entry s' = precedence_entry s"
  by (rule ext) (simp add: precedence_entry_def)

lemma precedence_entry_CurTok [simp]: "precedence_entry (s\<lparr>CurTok := t\<rparr>) = precedence_entry s"
  by (rule precedence_entry_cong) simp

lemma precedence_entry_stderr [simp]: "precedence_entry (s\<lparr>stderr := e\<rparr>) = precedence_entry s"
  by (rule precedence_entry_cong) simp

lemma precedence_entry_stdout [simp]: "precedence_entry (s\<lparr>stdout := e\<rparr>) = precedence_entry s"
  by (rule precedence_entry_cong) simp

lemma precedence_entry_insert_zero:
  "BinopPrecedence s k = None \<Longrightarrow>
   precedence_entry (s\<lparr>BinopPrecedence := (BinopPrecedence s)(k \<mapsto> 0)\<rparr>) = precedence_entry s"
  by (rule ext) (simp add: precedence_entry_def)

lemma parser_frame_lexer: "lexer_frame s s' \<Longrightarrow> parser_frame s s'"
  by (auto simp: parser_frame_def lexer_frame_def intro: precedence_entry_cong)

lemma parser_frame_CurTok: "parser_frame s (s'\<lparr>CurTok := t\<rparr>) = parser_frame s s'"
  by (simp add: parser_frame_def)

lemma getNextToken_frame: "getNextToken s = (t, s1) \<Longrightarrow> parser_frame s s1"
  using parser_frame_lexer [OF lexer_frame_gettok [of s]]
  by (auto simp: getNextToken_def parser_frame_CurTok split: prod.splits)

lemma LogError_frame: "LogError Str s = (r, s1) \<Longrightarrow> parser_frame s s1"
  by (auto simp: LogError_def parser_frame_def)

lemma LogErrorP_frame: "LogErrorP Str s = (r, s1) \<Longrightarrow> parser_frame s s1"
  by (auto simp: LogErrorP_def LogError_def parser_frame_def)

lemma GetTokPrecedence_frame: "GetTokPrecedence s = (p, s1) \<Longrightarrow> parser_frame s s1"
  by (auto simp: GetTokPrecedence_def map_subscript_def parser_frame_def Let_def
        precedence_entry_insert_zero
      split: if_splits option.splits)

lemma ParseNumberExpr_frame: "ParseNumberExpr s = (r, s1) \<Longrightarrow> parser_frame s s1"
  by (auto simp: ParseNumberExpr_def Let_def split: prod.splits dest: getNextToken_frame)

lemmas parser_frame_intros =
  getNextToken_frame LogError_frame LogErrorP_frame GetTokPrecedence_frame
  ParseNumberExpr_frame

lemma ParsePrototype_loop_frame:
  "ParsePrototype_loop ArgNames s = (r, s1) \<Longrightarrow> parser_frame s s1"
proof (induction ArgNames s arbitrary: r s1 rule: ParsePrototype_loop.induct)
  case (1 ArgNames s)
  obtain t s2 where g: "getNextToken s = (t, s2)" by (cases "getNextToken s")
  then have f2: "parser_frame s s2" by (rule getNextToken_frame)
  show ?case
  proof (cases "t = tok_identifier")
    case True
    with "1.prems" g have "ParsePrototype_loop (ArgNames @ [IdentifierStr s2]) s2 = (r, s1)"
      by (subst (asm) ParsePrototype_loop.simps) simp
    from f2 "1.IH" [OF g [symmetric] True this] show ?thesis by (rule parser_frame_trans)
  next
    case False
    with "1.prems" g have "s1 = s2"
      by (subst (asm) ParsePrototype_loop.simps) simp
    with f2 show ?thesis by simp
  qed
qed

lemma ParsePrototype_frame: "ParsePrototype s = (r, s1) \<Longrightarrow> parser_frame s s1"
  by (auto simp: ParsePrototype_def Let_def parser_frame_refl
        split: if_splits prod.splits
        dest!: getNextToken_frame LogErrorP_frame ParsePrototype_loop_frame)
     (force simp: parser_frame_def)+

declare ParseExpression.simps [simp del] ParseParenExpr.simps [simp del]
  ParseIdentifierExpr.simps [simp del] ParseIdentifierExpr_loop.simps [simp del]
  ParsePrimary.simps [simp del] ParseBinOpRHS.simps [simp del]

lemma ParseExpression_frame_step:
  assumes "\<And>s r s1. ParsePrimary n s = Some (r, s1) \<Longrightarrow> parser_frame s s1"
    and "\<And>e l s r s1. ParseBinOpRHS n e l s = Some (r, s1) \<Longrightarrow> parser_frame s s1"
  shows "ParseExpression (Suc n) s = Some (r, s1) \<Longrightarrow> parser_frame s s1"
  by (auto simp: ParseExpression.simps split: option.splits prod.splits dest!: assms)
     (force simp: parser_frame_def)+

lemma ParseParenExpr_frame_step:
  assumes "\<And>s r s1. ParseExpression n s = Some (r, s1) \<Longrightarrow> parser_frame s s1"
  shows "ParseParenExpr (Suc n) s = Some (r, s1) \<Longrightarrow> parser_frame s s1"
  by (auto simp: ParseParenExpr.simps split: option.splits prod.splits if_splits
        dest!: assms parser_frame_intros)
     (force simp: parser_frame_def)+

lemma ParseIdentifierExpr_frame_step:
  assumes "\<And>a s r s1. ParseIdentifierExpr_loop n a s = Some (r, s1) \<Longrightarrow> parser_frame s s1"
  shows "ParseIdentifierExpr (Suc n) s = Some (r, s1) \<Longrightarrow> parser_frame s s1"
  by (auto simp: ParseIdentifierExpr.simps Let_def split: option.splits prod.splits if_splits
        dest!: assms parser_frame_intros)
     (force simp: parser_frame_def)+

lemma ParseIdentifierExpr_loop_frame_step:
  assumes "\<And>s r s1. ParseExpression n s = Some (r, s1) \<Longrightarrow> parser_frame s s1"
    and "\<And>a s r s1. ParseIdentifierExpr_loop n a s = Some (r, s1) \<Longrightarrow> parser_frame s s1"
  shows "ParseIdentifierExpr_loop (Suc n) a s = Some (r, s1) \<Longrightarrow> parser_frame s s1"
  by (auto simp: ParseIdentifierExpr_loop.simps LogError_def
        split: option.splits prod.splits if_splits
        dest!: assms parser_frame_intros)
     (force simp: parser_frame_def)+

lemma ParsePrimary_frame_step:
  assumes "\<And>s r s1. ParseIdentifierExpr n s = Some (r, s1) \<Longrightarrow> parser_frame s s1"
    and "\<And>s r s1. ParseParenExpr n s = Some (r, s1) \<Longrightarrow> parser_frame s s1"
  shows "ParsePrimary (Suc n) s = Some (r, s1) \<Longrightarrow> parser_frame s s1"
  by (auto simp: ParsePrimary.simps split: option.splits prod.splits if_splits
        dest!: assms parser_frame_intros)

lemma ParseBinOpRHS_frame_step:
  assumes "\<And>s r s1. ParsePrimary n s = Some (r, s1) \<Longrightarrow> parser_frame s s1"
    and "\<And>e l s r s1. ParseBinOpRHS n e l s = Some (r, s1) \<Longrightarrow> parser_frame s s1"
  shows "ParseBinOpRHS (Suc n) e l s = Some (r, s1) \<Longrightarrow> parser_frame s s1"
  by (auto simp: ParseBinOpRHS.simps Let_def split: option.splits prod.splits if_splits
        dest!: assms parser_frame_intros)
     (force simp: parser_frame_def)+

lemma parser_frame_expr:
  "(\<forall>s r s1. ParseExpression n s = Some (r, s1) \<longrightarrow> parser_frame s s1)
   \<and> (\<forall>s r s1. ParseParenExpr n s = Some (r, s1) \<longrightarrow> parser_frame s s1)
   \<and> (\<forall>s r s1. ParseIdentifierExpr n s = Some (r, s1) \<longrightarrow> parser_frame s s1)
   \<and> (\<forall>a s r s1. ParseIdentifierExpr_loop n a s = Some (r, s1) \<longrightarrow> parser_frame s s1)
   \<and> (\<forall>s r s1. ParsePrimary n s = Some (r, s1) \<longrightarrow> parser_frame s s1)
   \<and> (\<forall>e l s r s1. ParseBinOpRHS n e l s = Some (r, s1) \<longrightarrow> parser_frame s s1)"
proof (induction n)
  case 0
  show ?case
    by (simp add: ParseExpression.simps ParseParenExpr.simps ParseIdentifierExpr.simps
        ParseIdentifierExpr_loop.simps ParsePrimary.simps ParseBinOpRHS.simps)
next
  case (Suc n)
  note ih = Suc.IH
  note e = ih [THEN conjunct1, rule_format]
  note p = ih [THEN conjunct2, THEN conjunct1, rule_format]
  note i = ih [THEN conjunct2, THEN conjunct2, THEN conjunct1, rule_format]
  note l = ih [THEN conjunct2, THEN conjunct2, THEN conjunct2, THEN conjunct1, rule_format]
  note y = ih [THEN conjunct2, THEN conjunct2, THEN conjunct2, THEN conjunct2, THEN conjunct1,
      rule_format]
  note b = ih [THEN conjunct2, THEN conjunct2, THEN conjunct2, THEN conjunct2, THEN conjunct2,
      rule_format]
  show ?case
  proof (intro conjI allI impI)
    fix s r s1 assume a: "ParseExpression (Suc n) s = Some (r, s1)"
    show "parser_frame s s1" by (rule ParseExpression_frame_step [where n = n]) (erule e p i l y b | rule a)+
  next
    fix s r s1 assume a: "ParseParenExpr (Suc n) s = Some (r, s1)"
    show "parser_frame s s1" by (rule ParseParenExpr_frame_step [where n = n]) (erule e p i l y b | rule a)+
  next
    fix s r s1 assume a: "ParseIdentifierExpr (Suc n) s = Some (r, s1)"
    show "parser_frame s s1" by (rule ParseIdentifierExpr_frame_step [where n = n]) (erule e p i l y b | rule a)+
  next
    fix a s r s1 assume a: "ParseIdentifierExpr_loop (Suc n) a s = Some (r, s1)"
    show "parser_frame s s1" by (rule ParseIdentifierExpr_loop_frame_step [where n = n]) (erule e p i l y b | rule a)+
  next
    fix s r s1 assume a: "ParsePrimary (Suc n) s = Some (r, s1)"
    show "parser_frame s s1" by (rule ParsePrimary_frame_step [where n = n]) (erule e p i l y b | rule a)+
  next
    fix e' l' s r s1 assume a: "ParseBinOpRHS (Suc n) e' l' s = Some (r, s1)"
    show "parser_frame s s1" by (rule ParseBinOpRHS_frame_step [where n = n]) (erule e p i l y b | rule a)+
  qed
qed

lemmas ParseExpression_frame = parser_frame_expr [THEN conjunct1, rule_format]

lemmas ParseBinOpRHS_frame = parser_frame_expr [THEN conjunct2, THEN conjunct2, THEN conjunct2,
    THEN conjunct2, THEN conjunct2, rule_format]

lemma fprintf_stdout_frame: "parser_frame s (fprintf_stdout Str s)"
  by (simp add: fprintf_stdout_def parser_frame_def)

lemma ParseDefinition_frame: "ParseDefinition n s = Some (r, s1) \<Longrightarrow> parser_frame s s1"
  by (auto simp: ParseDefinition_def split: option.splits prod.splits
        dest!: getNextToken_frame ParsePrototype_frame ParseExpression_frame)
     (force simp: parser_frame_def)+

lemma ParseTopLevelExpr_frame: "ParseTopLevelExpr n s = Some (r, s1) \<Longrightarrow> parser_frame s s1"
  by (auto simp: ParseTopLevelExpr_def Let_def split: option.splits prod.splits
        dest!: ParseExpression_frame)

lemma ParseExtern_frame: "ParseExtern s = (r, s1) \<Longrightarrow> parser_frame s s1"
  by (auto simp: ParseExtern_def split: prod.splits
        dest!: getNextToken_frame ParsePrototype_frame)
     (force simp: parser_frame_def)+

lemma HandleDefinition_frame: "HandleDefinition n s = Some s1 \<Longrightarrow> parser_frame s s1"
proof -
  assume h: "HandleDefinition n s = Some s1"
  then obtain r s2 where p: "ParseDefinition n s = Some (r, s2)"
    by (auto simp: HandleDefinition_def split: option.splits)
  then have f: "parser_frame s s2" by (rule ParseDefinition_frame)
  show ?thesis
  proof (cases r)
    case None
    with h p have "s1 = snd (getNextToken s2)" by (simp add: HandleDefinition_def)
    with f getNextToken_frame [OF surjective_pairing, of s2] show ?thesis
      by (auto intro: parser_frame_trans)
  next
    case (Some F)
    with h p have "s1 = fprintf_stdout (''Parsed a function definition.'' @ [CHR 0x0A]) s2"
      by (simp add: HandleDefinition_def)
    with f fprintf_stdout_frame show ?thesis by (auto intro: parser_frame_trans)
  qed
qed

lemma HandleTopLevelExpr_frame: "HandleTopLevelExpr n s = Some s1 \<Longrightarrow> parser_frame s s1"
proof -
  assume h: "HandleTopLevelExpr n s = Some s1"
  then obtain r s2 where p: "ParseTopLevelExpr n s = Some (r, s2)"
    by (auto simp: HandleTopLevelExpr_def split: option.splits)
  then have f: "parser_frame s s2" by (rule ParseTopLevelExpr_frame)
  show ?thesis
  proof (cases r)
    case None
    with h p have "s1 = snd (getNextToken s2)" by (simp add: HandleTopLevelExpr_def)
    with f getNextToken_frame [OF surjective_pairing, of s2] show ?thesis
      by (auto intro: parser_frame_trans)
  next
    case (Some F)
    with h p have
      "s1 = fprintf_stdout (''Parsed a function top-level expression.'' @ [CHR 0x0A]) s2"
      by (simp add: HandleTopLevelExpr_def)
    with f fprintf_stdout_frame show ?thesis by (auto intro: parser_frame_trans)
  qed
qed

lemma HandleExtern_frame: "parser_frame s (HandleExtern s)"
proof -
  obtain r s2 where p: "ParseExtern s = (r, s2)" by (cases "ParseExtern s")
  then have f: "parser_frame s s2" by (rule ParseExtern_frame)
  show ?thesis
  proof (cases r)
    case None
    with p have "HandleExtern s = snd (getNextToken s2)" by (simp add: HandleExtern_def)
    with f getNextToken_frame [OF surjective_pairing, of s2] show ?thesis
      by (auto intro: parser_frame_trans)
  next
    case (Some F)
    with p have "HandleExtern s = fprintf_stdout (''Parsed a function extern.'' @ [CHR 0x0A]) s2"
      by (simp add: HandleExtern_def)
    with f fprintf_stdout_frame show ?thesis by (auto intro: parser_frame_trans)
  qed
qed

lemma MainLoop_frame: "MainLoop n s = Some s1 \<Longrightarrow> parser_frame s s1"
proof (induction n arbitrary: s)
  case 0
  then show ?case by simp
next
  case (Suc n)
  define s' where "s' = fprintf_stdout ''ready> '' s"
  have f: "parser_frame s s'" by (simp add: s'_def fprintf_stdout_frame)
  consider (eof) "CurTok s' = tok_eof"
    | (semi) "CurTok s' \<noteq> tok_eof" "CurTok s' = of_char CHR '';''"
    | (def) "CurTok s' \<noteq> tok_eof" "CurTok s' \<noteq> of_char CHR '';''" "CurTok s' = tok_def"
    | (ext) "CurTok s' \<noteq> tok_eof" "CurTok s' \<noteq> of_char CHR '';''" "CurTok s' \<noteq> tok_def"
        "CurTok s' = tok_extern"
    | (top) "CurTok s' \<noteq> tok_eof" "CurTok s' \<noteq> of_char CHR '';''" "CurTok s' \<noteq> tok_def"
        "CurTok s' \<noteq> tok_extern"
    by blast
  then show ?case
  proof cases
    case eof
    with Suc.prems have "s1 = s'" by (simp add: s'_def [symmetric] Let_def)
    with f show ?thesis by simp
  next
    case semi
    with Suc.prems have "MainLoop n (snd (getNextToken s')) = Some s1"
      by (simp add: s'_def [symmetric] Let_def)
    from Suc.IH [OF this] getNextToken_frame [OF surjective_pairing, of s'] f
    show ?thesis by (blast intro: parser_frame_trans)
  next
    case def
    with Suc.prems obtain s2 where h: "HandleDefinition n s' = Some s2"
      and m: "MainLoop n s2 = Some s1"
      by (auto simp add: s'_def [symmetric] Let_def split: option.splits)
    from f HandleDefinition_frame [OF h] Suc.IH [OF m]
    show ?thesis by (blast intro: parser_frame_trans)
  next
    case ext
    with Suc.prems have m: "MainLoop n (HandleExtern s') = Some s1"
      by (simp add: s'_def [symmetric] Let_def)
    from f HandleExtern_frame [of s'] Suc.IH [OF m]
    show ?thesis by (blast intro: parser_frame_trans)
  next
    case top
    with Suc.prems obtain s2 where h: "HandleTopLevelExpr n s' = Some s2"
      and m: "MainLoop n s2 = Some s1"
      by (auto simp add: s'_def [symmetric] Let_def split: option.splits)
    from f HandleTopLevelExpr_frame [OF h] Suc.IH [OF m]
    show ?thesis by (blast intro: parser_frame_trans)
  qed
qed

lemma parser_frame_entry:
  "parser_frame s s' \<Longrightarrow> BinopPrecedence s k = Some p \<Longrightarrow> BinopPrecedence s' k = Some p"
proof -
  assume f: "parser_frame s s'" and k: "BinopPrecedence s k = Some p"
  from f k obtain q where q: "BinopPrecedence s' k = Some q"
    by (auto simp: parser_frame_def)
  from f have "precedence_entry s' k = precedence_entry s k"
    by (simp add: parser_frame_def)
  with k q show ?thesis by (simp add: precedence_entry_def)
qed

lemma parser_frame_zero_extension:
  "parser_frame s s' \<Longrightarrow> zero_extension (BinopPrecedence s) (BinopPrecedence s')"
  unfolding zero_extension_def
proof
  fix k
  assume f: "parser_frame s s'"
  then have e: "precedence_entry s' k = precedence_entry s k"
    and d: "dom (BinopPrecedence s) \<subseteq> dom (BinopPrecedence s')"
    by (simp_all add: parser_frame_def)
  show "BinopPrecedence s' k = BinopPrecedence s k
        \<or> (BinopPrecedence s k = None \<and> BinopPrecedence s' k = Some 0)"
  proof (cases "BinopPrecedence s k")
    case None
    with e show ?thesis by (auto simp: precedence_entry_def split: option.splits)
  next
    case (Some p)
    with f have "BinopPrecedence s' k = Some p" by (rule parser_frame_entry)
    with Some show ?thesis by simp
  qed
qed

lemma main_frame: "main n s = Some s1 \<Longrightarrow> parser_frame (install_binops s) s1"
proof -
  assume m: "main n s = Some s1"
  define s2 where "s2 = fprintf_stdout ''ready> '' (install_binops s)"
  have f2: "parser_frame (install_binops s) s2"
    by (simp add: s2_def fprintf_stdout_frame)
  have f3: "parser_frame s2 (snd (getNextToken s2))"
    by (rule getNextToken_frame [OF surjective_pairing])
  from m have "MainLoop n (snd (getNextToken s2)) = Some s1"
    by (simp add: main_def Let_def s2_def split: prod.splits)
  then have "parser_frame (snd (getNextToken s2)) s1" by (rule MainLoop_frame)
  with f2 f3 show ?thesis by (blast intro: parser_frame_trans)
qed

lemma GetTokPrecedence_absent:
  "isascii (CurTok s) \<Longrightarrow> BinopPrecedence s (char_of (CurTok s)) = None \<Longrightarrow>
   GetTokPrecedence s = (- 1, s\<lparr>BinopPrecedence := (BinopPrecedence s)(char_of (CurTok s) \<mapsto> 0)\<rparr>)"
  by (simp add: GetTokPrecedence_def map_subscript_def)

text \<open>
  Claim C4 fails as it is stated. With the table installed and the input \<^verbatim>\<open>x;\<close>, the table
  has no entry for \<^verbatim>\<open>;\<close>; parsing the expression \<^verbatim>\<open>x\<close> looks the precedence of \<^verbatim>\<open>;\<close> up,
  and \<^verbatim>\<open>operator[]\<close> leaves the entry \<^verbatim>\<open>';' -> 0\<close> in the table.
\<close>

theorem GetTokPrecedence_inserts_entry:
  "BinopPrecedence (start_state ''x;'') CHR '';'' = None
   \<and> map_option (\<lambda>(r, s). (r, BinopPrecedence s CHR '';''))
        (ParseExpression 5 (start_state ''x;'')) =
       Some (Some (VariableExprAST ''x''), Some 0)"
  by code_simp

text \<open>
  Claim C4, amended. After start-up no parsing operation changes or removes an entry of
  the precedence table or adds an entry other than 0: the table after a precedence look-up
  by \<open>GetTokPrecedence\<close>, after \<open>ParseBinOpRHS\<close>, after the whole of \<open>MainLoop\<close> and at the
  end of \<open>main\<close> is the table before (for \<open>main\<close>, the table as installed), extended by
  entries of value 0 for characters that had none. And the look-up does insert: for an
  ASCII token without an entry, \<open>GetTokPrecedence\<close> leaves the entry 0 for it in the table.
\<close>

theorem precedence_table_zero_extension:
  "(\<forall>p s'. GetTokPrecedence s = (p, s') \<longrightarrow>
       zero_extension (BinopPrecedence s) (BinopPrecedence s'))
   \<and> (isascii (CurTok s) \<and> BinopPrecedence s (char_of (CurTok s)) = None \<longrightarrow>
       BinopPrecedence (snd (GetTokPrecedence s)) =
         (BinopPrecedence s)(char_of (CurTok s) \<mapsto> 0))
   \<and> (\<forall>r s'. ParseBinOpRHS n ExprPrec LHS s = Some (r, s') \<longrightarrow>
       zero_extension (BinopPrecedence s) (BinopPrecedence s'))
   \<and> (\<forall>s'. MainLoop n s = Some s' \<longrightarrow>
       zero_extension (BinopPrecedence s) (BinopPrecedence s'))
   \<and> (\<forall>s'. main n s = Some s' \<longrightarrow>
       zero_extension (BinopPrecedence (install_binops s)) (BinopPrecedence s'))"
proof (intro conjI allI impI)
  fix p s' assume "GetTokPrecedence s = (p, s')"
  then have "parser_frame s s'" by (rule GetTokPrecedence_frame)
  then show "zero_extension (BinopPrecedence s) (BinopPrecedence s')"
    by (rule parser_frame_zero_extension)
next
  assume "isascii (CurTok s) \<and> BinopPrecedence s (char_of (CurTok s)) = None"
  then show "BinopPrecedence (snd (GetTokPrecedence s)) =
         (BinopPrecedence s)(char_of (CurTok s) \<mapsto> 0)"
    by (simp add: GetTokPrecedence_absent)
next
  fix r s' assume "ParseBinOpRHS n ExprPrec LHS s = Some (r, s')"
  then have "parser_frame s s'" by (rule ParseBinOpRHS_frame)
  then show "zero_extension (BinopPrecedence s) (BinopPrecedence s')"
    by (rule parser_frame_zero_extension)
next
  fix s' assume "MainLoop n s = Some s'"
  then have "parser_frame s s'" by (rule MainLoop_frame)
  then show "zero_extension (BinopPrecedence s) (BinopPrecedence s')"
    by (rule parser_frame_zero_extension)
next
  fix s' assume "main n s = Some s'"
  then have "parser_frame (install_binops s) s'" by (rule main_frame)
  then show "zero_extension (BinopPrecedence (install_binops s)) (BinopPrecedence s')"
    by (rule parser_frame_zero_extension)
qed

theorem precedence_table_zero_extension_witness:
  "CurTok semicolon_state = of_char CHR '';''
   \<and> BinopPrecedence semicolon_state CHR '';'' = None
   \<and> BinopPrecedence (snd (GetTokPrecedence semicolon_state)) CHR '';'' = Some 0
   \<and> zero_extension (BinopPrecedence semicolon_state)
        (BinopPrecedence (snd (GetTokPrecedence semicolon_state)))
   \<and> ParseBinOpRHS 3 0 (VariableExprAST ''x'') semicolon_state \<noteq> None
   \<and> zero_extension (BinopPrecedence semicolon_state)
        (BinopPrecedence (snd (the (ParseBinOpRHS 3 0 (VariableExprAST ''x'') semicolon_state))))
   \<and> MainLoop 20 (start_state ''1+2*x;'') \<noteq> None
   \<and> zero_extension (BinopPrecedence (start_state ''1+2*x;''))
        (BinopPrecedence (the (MainLoop 20 (start_state ''1+2*x;''))))
   \<and> main 20 (initial_state ''1+2*x;'') \<noteq> None
   \<and> zero_extension (BinopPrecedence (install_binops (initial_state ''1+2*x;'')))
        (BinopPrecedence (the (main 20 (initial_state ''1+2*x;''))))
   \<and> BinopPrecedence (the (main 20 (initial_state ''1+2*x;''))) CHR '';'' = Some 0
   \<and> BinopPrecedence (the (main 20 (initial_state ''1+2*x;''))) CHR ''+'' = Some 20"
proof -
  note thm1 = precedence_table_zero_extension [of semicolon_state 3 0 "VariableExprAST ''x''"]
  note thm2 = precedence_table_zero_extension [of "start_state ''1+2*x;''" 20]
  note thm3 = precedence_table_zero_extension [of "initial_state ''1+2*x;''" 20]
  have c: "CurTok semicolon_state = of_char CHR '';''" by code_simp
  have a: "isascii (CurTok semicolon_state)" by code_simp
  have n: "BinopPrecedence semicolon_state (char_of (CurTok semicolon_state)) = None"
    by code_simp
  have n': "BinopPrecedence semicolon_state CHR '';'' = None" by code_simp
  from thm1 a n have
    "BinopPrecedence (snd (GetTokPrecedence semicolon_state)) =
       (BinopPrecedence semicolon_state)(char_of (CurTok semicolon_state) \<mapsto> 0)"
    by blast
  moreover have "char_of (CurTok semicolon_state) = CHR '';''" by code_simp
  ultimately have g1:
    "BinopPrecedence (snd (GetTokPrecedence semicolon_state)) CHR '';'' = Some 0"
    by simp
  from thm1 have g2: "zero_extension (BinopPrecedence semicolon_state)
        (BinopPrecedence (snd (GetTokPrecedence semicolon_state)))"
    by (metis surjective_pairing)
  have b0: "ParseBinOpRHS 3 0 (VariableExprAST ''x'') semicolon_state \<noteq> None" by code_simp
  then obtain r sb where sb: "ParseBinOpRHS 3 0 (VariableExprAST ''x'') semicolon_state = Some (r, sb)"
    by (cases "ParseBinOpRHS 3 0 (VariableExprAST ''x'') semicolon_state") auto
  with thm1 have b1: "zero_extension (BinopPrecedence semicolon_state) (BinopPrecedence sb)"
    by blast
  have m0: "MainLoop 20 (start_state ''1+2*x;'') \<noteq> None" by code_simp
  then obtain sm where sm: "MainLoop 20 (start_state ''1+2*x;'') = Some sm" by blast
  with thm2 have m1: "zero_extension (BinopPrecedence (start_state ''1+2*x;''))
      (BinopPrecedence sm)"
    by blast
  have w0: "main 20 (initial_state ''1+2*x;'') \<noteq> None" by code_simp
  then obtain sw where sw: "main 20 (initial_state ''1+2*x;'') = Some sw" by blast
  with thm3 have w1: "zero_extension (BinopPrecedence (install_binops (initial_state ''1+2*x;'')))
      (BinopPrecedence sw)"
    by blast
  have w2: "BinopPrecedence (the (main 20 (initial_state ''1+2*x;''))) CHR '';'' = Some 0"
    by code_simp
  have w3: "BinopPrecedence (the (main 20 (initial_state ''1+2*x;''))) CHR ''+'' = Some 20"
    by code_simp
  from c n' g1 g2 b0 sb b1 m0 sm m1 w0 sw w1 w2 w3 show ?thesis by simp
qed

text \<open>
  Claim C2 fails as it is stated: the program has no code generation for a function
  definition. \<open>HandleDefinition\<close> on \<^verbatim>\<open>def foo(a) a;\<close> parses the definition and prints its
  status line; the module still has no function, the binding table no entry for \<^verbatim>\<open>a\<close>,
  the builder no instruction.
\<close>

theorem HandleDefinition_generates_nothing:
  "CurTok def_state = tok_def
   \<and> map_option (\<lambda>(F, s). F) (ParseDefinition 5 def_state) =
       Some (Some (FunctionAST (PrototypeAST ''foo'' [''a'']) (VariableExprAST ''a'')))
   \<and> map_option (\<lambda>s. (stdout s, TheModule s, NamedValues s ''a'', Builder s))
        (HandleDefinition 5 def_state) =
       Some (''Parsed a function definition.'' @ [CHR 0x0A], Some [], None, [])"
  by code_simp

text \<open>
  Claim C2, amended. \<open>HandleDefinition\<close> only parses: it leaves the module, the binding
  table and the builder as they were, and for a definition that parsed all it adds to the
  state left by the parser is the line \<^verbatim>\<open>Parsed a function definition.\<close> on the output.
\<close>

theorem HandleDefinition_parses_only:
  assumes "HandleDefinition n s = Some s'"
  shows "TheModule s' = TheModule s \<and> NamedValues s' = NamedValues s \<and> Builder s' = Builder s
       \<and> (\<forall>F s1. ParseDefinition n s = Some (Some F, s1) \<longrightarrow>
             s' = s1\<lparr>stdout := stdout s1 @ ''Parsed a function definition.'' @ [CHR 0x0A]\<rparr>)"
  using HandleDefinition_frame [OF assms] assms
  by (auto simp: parser_frame_def HandleDefinition_def fprintf_stdout_def)

theorem HandleDefinition_parses_only_witness:
  "HandleDefinition 5 def_state \<noteq> None
   \<and> map_option fst (ParseDefinition 5 def_state) =
       Some (Some (FunctionAST (PrototypeAST ''foo'' [''a'']) (VariableExprAST ''a'')))
   \<and> TheModule def_state = Some []
   \<and> TheModule (the (HandleDefinition 5 def_state)) = Some []
   \<and> NamedValues (the (HandleDefinition 5 def_state)) = NamedValues def_state
   \<and> Builder (the (HandleDefinition 5 def_state)) = []
   \<and> stdout (the (HandleDefinition 5 def_state)) =
       ''Parsed a function definition.'' @ [CHR 0x0A]"
proof -
  have h: "HandleDefinition 5 def_state \<noteq> None" by code_simp
  then obtain s' where s': "HandleDefinition 5 def_state = Some s'" by blast
  have i: "TheModule def_state = Some []" "Builder def_state = []" by code_simp+
  have p: "map_option fst (ParseDefinition 5 def_state) =
       Some (Some (FunctionAST (PrototypeAST ''foo'' [''a'']) (VariableExprAST ''a'')))"
    by code_simp
  then obtain s1 where s1: "ParseDefinition 5 def_state =
       Some (Some (FunctionAST (PrototypeAST ''foo'' [''a'']) (VariableExprAST ''a'')), s1)"
    by (cases "ParseDefinition 5 def_state") auto
  have "stdout (snd (the (ParseDefinition 5 def_state))) = []" by code_simp
  with s1 have o: "stdout s1 = []" by simp
  from HandleDefinition_parses_only [OF s'] s1
  have "s' = s1\<lparr>stdout := stdout s1 @ ''Parsed a function definition.'' @ [CHR 0x0A]\<rparr>"
    by blast
  with o have "stdout s' = ''Parsed a function definition.'' @ [CHR 0x0A]" by simp
  with HandleDefinition_parses_only [OF s'] s' i p show ?thesis by simp
qed

subsection \<open>Precedence climbing\<close>

text \<open>A parse that succeeds within some bound succeeds, with the same result, within any
  larger one.\<close>

lemma ParseExpression_mono_step:
  assumes "\<And>s r. ParsePrimary n s = Some r \<Longrightarrow> ParsePrimary m s = Some r"
    and "\<And>e l s r. ParseBinOpRHS n e l s = Some r \<Longrightarrow> ParseBinOpRHS m e l s = Some r"
  shows "ParseExpression (Suc n) s = Some r \<Longrightarrow> ParseExpression (Suc m) s = Some r"
  by (auto simp: ParseExpression.simps split: option.splits prod.splits dest!: assms)

lemma ParseParenExpr_mono_step:
  assumes "\<And>s r. ParseExpression n s = Some r \<Longrightarrow> ParseExpression m s = Some r"
  shows "ParseParenExpr (Suc n) s = Some r \<Longrightarrow> ParseParenExpr (Suc m) s = Some r"
  by (auto simp: ParseParenExpr.simps split: option.splits prod.splits if_splits dest!: assms)

lemma ParseIdentifierExpr_mono_step:
  assumes "\<And>a s r. ParseIdentifierExpr_loop n a s = Some r \<Longrightarrow> ParseIdentifierExpr_loop m a s = Some r"
  shows "ParseIdentifierExpr (Suc n) s = Some r \<Longrightarrow> ParseIdentifierExpr (Suc m) s = Some r"
  by (auto simp: ParseIdentifierExpr.simps Let_def split: option.splits prod.splits if_splits
        dest!: assms)

lemma ParseIdentifierExpr_loop_mono_step:
  assumes "\<And>s r. ParseExpression n s = Some r \<Longrightarrow> ParseExpression m s = Some r"
    and "\<And>a s r. ParseIdentifierExpr_loop n a s = Some r \<Longrightarrow> ParseIdentifierExpr_loop m a s = Some r"
  shows "ParseIdentifierExpr_loop (Suc n) a s = Some r \<Longrightarrow> ParseIdentifierExpr_loop (Suc m) a s = Some r"
  by (auto simp: ParseIdentifierExpr_loop.simps split: option.splits prod.splits if_splits
        dest!: assms)

lemma ParsePrimary_mono_step:
  assumes "\<And>s r. ParseIdentifierExpr n s = Some r \<Longrightarrow> ParseIdentifierExpr m s = Some r"
    and "\<And>s r. ParseParenExpr n s = Some r \<Longrightarrow> ParseParenExpr m s = Some r"
  shows "ParsePrimary (Suc n) s = Some r \<Longrightarrow> ParsePrimary (Suc m) s = Some r"
  by (auto simp: ParsePrimary.simps split: if_splits dest!: assms)


lemma ParseBinOpRHS_mono_step:
  assumes "\<And>s r. ParsePrimary n s = Some r \<Longrightarrow> ParsePrimary m s = Some r"
    and "\<And>e l s r. ParseBinOpRHS n e l s = Some r \<Longrightarrow> ParseBinOpRHS m e l s = Some r"
  shows "ParseBinOpRHS (Suc n) e l s = Some r \<Longrightarrow> ParseBinOpRHS (Suc m) e l s = Some r"
  by (auto simp: ParseBinOpRHS.simps Let_def split: option.splits prod.splits if_splits
        dest!: assms)

lemma parser_fuel_mono:
  "n \<le> m \<Longrightarrow>
   (\<forall>s r. ParseExpression n s = Some r \<longrightarrow> ParseExpression m s = Some r)
   \<and> (\<forall>s r. ParseParenExpr n s = Some r \<longrightarrow> ParseParenExpr m s = Some r)
   \<and> (\<forall>s r. ParseIdentifierExpr n s = Some r \<longrightarrow> ParseIdentifierExpr m s = Some r)
   \<and> (\<forall>a s r. ParseIdentifierExpr_loop n a s = Some r \<longrightarrow>
                ParseIdentifierExpr_loop m a s = Some r)
   \<and> (\<forall>s r. ParsePrimary n s = Some r \<longrightarrow> ParsePrimary m s = Some r)
   \<and> (\<forall>e l s r. ParseBinOpRHS n e l s = Some r \<longrightarrow> ParseBinOpRHS m e l s = Some r)"
proof (induction n arbitrary: m)
  case 0
  show ?case
    by (simp add: ParseExpression.simps ParseParenExpr.simps ParseIdentifierExpr.simps
        ParseIdentifierExpr_loop.simps ParsePrimary.simps ParseBinOpRHS.simps)
next
  case (Suc n)
  from Suc.prems obtain k where m: "m = Suc k" and le: "n \<le> k" by (cases m) auto
  note ih = Suc.IH [OF le]
  note e = ih [THEN conjunct1, rule_format]
  note p = ih [THEN conjunct2, THEN conjunct1, rule_format]
  note i = ih [THEN conjunct2, THEN conjunct2, THEN conjunct1, rule_format]
  note l = ih [THEN conjunct2, THEN conjunct2, THEN conjunct2, THEN conjunct1, rule_format]
  note y = ih [THEN conjunct2, THEN conjunct2, THEN conjunct2, THEN conjunct2, THEN conjunct1,
      rule_format]
  note b = ih [THEN conjunct2, THEN conjunct2, THEN conjunct2, THEN conjunct2, THEN conjunct2,
      rule_format]
  show ?case unfolding m
  proof (intro conjI allI impI)
    fix s r assume a: "ParseExpression (Suc n) s = Some r"
    show "ParseExpression (Suc k) s = Some r"
      by (rule ParseExpression_mono_step [where n = n]) (erule e p i l y b | rule a)+
  next
    fix s r assume a: "ParseParenExpr (Suc n) s = Some r"
    show "ParseParenExpr (Suc k) s = Some r"
      by (rule ParseParenExpr_mono_step [where n = n]) (erule e p i l y b | rule a)+
  next
    fix s r assume a: "ParseIdentifierExpr (Suc n) s = Some r"
    show "ParseIdentifierExpr (Suc k) s = Some r"
      by (rule ParseIdentifierExpr_mono_step [where n = n]) (erule e p i l y b | rule a)+
  next
    fix a' s r assume a: "ParseIdentifierExpr_loop (Suc n) a' s = Some r"
    show "ParseIdentifierExpr_loop (Suc k) a' s = Some r"
      by (rule ParseIdentifierExpr_loop_mono_step [where n = n]) (erule e p i l y b | rule a)+
  next
    fix s r assume a: "ParsePrimary (Suc n) s = Some r"
    show "ParsePrimary (Suc k) s = Some r"
      by (rule ParsePrimary_mono_step [where n = n]) (erule e p i l y b | rule a)+
  next
    fix e' l' s r assume a: "ParseBinOpRHS (Suc n) e' l' s = Some r"
    show "ParseBinOpRHS (Suc k) e' l' s = Some r"
      by (rule ParseBinOpRHS_mono_step [where n = n]) (erule e p i l y b | rule a)+
  qed
qed

lemma GetTokPrecedence_operator:
  "isascii (CurTok s) \<Longrightarrow> BinopPrecedence s (char_of (CurTok s)) = Some p \<Longrightarrow> 0 < p \<Longrightarrow>
   GetTokPrecedence s = (p, s)"
  by (simp add: GetTokPrecedence_def map_subscript_def)

lemma GetTokPrecedence_idem:
  "GetTokPrecedence s = (p, s1) \<Longrightarrow> GetTokPrecedence s1 = (p, s1)"
  by (auto simp: GetTokPrecedence_def map_subscript_def Let_def
      split: if_splits option.splits)

lemma ParseBinOpRHS_stop:
  "fst (GetTokPrecedence s) < ExprPrec \<Longrightarrow>
   ParseBinOpRHS (Suc n) ExprPrec LHS s = Some (Some LHS, snd (GetTokPrecedence s))"
  by (cases "GetTokPrecedence s") (simp add: ParseBinOpRHS.simps)

lemma ParseBinOpRHS_combine:
  assumes "GetTokPrecedence s = (p, s)" and "ExprPrec \<le> p"
    and "ParsePrimary n (snd (getNextToken s)) = Some (Some RHS, s3)"
    and "GetTokPrecedence s3 = (q, s4)" and "\<not> p < q"
  shows "ParseBinOpRHS (Suc n) ExprPrec LHS s =
           ParseBinOpRHS n ExprPrec (BinaryExprAST (char_of (CurTok s)) LHS RHS) s4"
  using assms by (cases "getNextToken s") (simp add: ParseBinOpRHS.simps Let_def)

lemma ParseBinOpRHS_absorb:
  assumes "GetTokPrecedence s = (p, s)" and "ExprPrec \<le> p"
    and "ParsePrimary n (snd (getNextToken s)) = Some (Some RHS, s3)"
    and "GetTokPrecedence s3 = (q, s4)" and "p < q"
    and "ParseBinOpRHS n (p + 1) RHS s4 = Some (Some RHS', s5)"
  shows "ParseBinOpRHS (Suc n) ExprPrec LHS s =
           ParseBinOpRHS n ExprPrec (BinaryExprAST (char_of (CurTok s)) LHS RHS') s5"
  using assms by (cases "getNextToken s") (simp add: ParseBinOpRHS.simps Let_def)

lemmas ParsePrimary_fuel = parser_fuel_mono [THEN conjunct2, THEN conjunct2, THEN conjunct2,
    THEN conjunct2, THEN conjunct1, rule_format]

lemmas ParsePrimary_frame = parser_frame_expr [THEN conjunct2, THEN conjunct2, THEN conjunct2,
    THEN conjunct2, THEN conjunct1, rule_format]

text \<open>
  Claim C1. Let the input be a primary \<open>a\<close>, the operator \<open>OP1\<close>, a primary \<open>b\<close>, the
  operator \<open>OP2\<close>, a primary \<open>c\<close>, and then a token that is no operator (the end of the
  input, for one), where \<open>OP1\<close> and \<open>OP2\<close> are ASCII characters with the positive entries
  \<open>p1\<close> and \<open>p2\<close> in the precedence table. Then \<open>ParseExpression\<close>, under every bound from
  four more than the bounds the three primaries need, returns \<open>(a OP1 b) OP2 c\<close> when
  \<open>p1 \<ge> p2\<close> and \<open>a OP1 (b OP2 c)\<close> when \<open>p1 < p2\<close>.
\<close>

theorem ParseExpression_two_operators:
  assumes a: "ParsePrimary na s0 = Some (Some a, s1)"
    and op1: "CurTok s1 = of_char OP1" "isascii (of_char OP1)"
    and b: "ParsePrimary nb (snd (getNextToken s1)) = Some (Some b, s3)"
    and op2: "CurTok s3 = of_char OP2" "isascii (of_char OP2)"
    and c: "ParsePrimary nc (snd (getNextToken s3)) = Some (Some c, s5)"
    and fin: "fst (GetTokPrecedence s5) = - 1"
    and p1: "BinopPrecedence s0 OP1 = Some p1" "0 < p1"
    and p2: "BinopPrecedence s0 OP2 = Some p2" "0 < p2"
    and n: "na + nb + nc + 4 \<le> n"
  shows "ParseExpression n s0 =
           Some (Some (if p1 < p2
                       then BinaryExprAST OP1 a (BinaryExprAST OP2 b c)
                       else BinaryExprAST OP2 (BinaryExprAST OP1 a b) c),
                 snd (GetTokPrecedence s5))"
proof -
  define s6 where "s6 = snd (GetTokPrecedence s5)"
  from n obtain k where k: "n = Suc (Suc (Suc (Suc k)))" and
    le: "na \<le> k" "nb \<le> k" "nc \<le> k"
    by (cases n; simp; rename_tac n1; case_tac n1; simp; rename_tac n2; case_tac n2; simp;
        rename_tac n3; case_tac n3; simp)
  have f01: "parser_frame s0 s1" using a by (rule ParsePrimary_frame)
  have f12: "parser_frame s1 (snd (getNextToken s1))"
    by (rule getNextToken_frame [OF surjective_pairing])
  have f23: "parser_frame (snd (getNextToken s1)) s3" using b by (rule ParsePrimary_frame)
  have f03: "parser_frame s0 s3"
    by (rule parser_frame_trans [OF f01 parser_frame_trans [OF f12 f23]])
  have t1: "GetTokPrecedence s1 = (p1, s1)"
    using parser_frame_entry [OF f01 p1(1)] op1 p1(2)
    by (intro GetTokPrecedence_operator) simp_all
  have t3: "GetTokPrecedence s3 = (p2, s3)"
    using parser_frame_entry [OF f03 p2(1)] op2 p2(2)
    by (intro GetTokPrecedence_operator) simp_all
  have t5: "GetTokPrecedence s5 = (- 1, s6)"
    using fin by (simp add: s6_def prod_eq_iff)
  have t6: "GetTokPrecedence s6 = (- 1, s6)"
    using t5 by (rule GetTokPrecedence_idem)
  have c1: "char_of (CurTok s1) = OP1" "char_of (CurTok s3) = OP2"
    using op1 op2 by simp_all
  have A: "\<And>m. na \<le> m \<Longrightarrow> ParsePrimary m s0 = Some (Some a, s1)"
    using a by (rule ParsePrimary_fuel [rotated])
  have B: "\<And>m. nb \<le> m \<Longrightarrow> ParsePrimary m (snd (getNextToken s1)) = Some (Some b, s3)"
    using b by (rule ParsePrimary_fuel [rotated])
  have C: "\<And>m. nc \<le> m \<Longrightarrow> ParsePrimary m (snd (getNextToken s3)) = Some (Some c, s5)"
    using c by (rule ParsePrimary_fuel [rotated])
  have stop: "\<And>m e l. 0 \<le> e \<Longrightarrow> ParseBinOpRHS (Suc m) e l s6 = Some (Some l, s6)"
    using t6 by (simp add: ParseBinOpRHS_stop)
  have start: "ParseExpression n s0 = ParseBinOpRHS (Suc (Suc (Suc k))) 0 a s1"
    using A [of "Suc (Suc (Suc k))"] le by (simp add: k ParseExpression.simps)
  show ?thesis
  proof (cases "p1 < p2")
    case False
    have "ParseBinOpRHS (Suc (Suc (Suc k))) 0 a s1 =
            ParseBinOpRHS (Suc (Suc k)) 0 (BinaryExprAST OP1 a b) s3"
      using ParseBinOpRHS_combine [OF t1 _ B t3 False, of 0 "Suc (Suc k)" a] le p1(2) c1
      by simp
    also have "\<dots> = ParseBinOpRHS (Suc k) 0 (BinaryExprAST OP2 (BinaryExprAST OP1 a b) c) s6"
      using ParseBinOpRHS_combine [OF t3 _ C t5, of 0 "Suc k" "BinaryExprAST OP1 a b"]
        le p2(2) c1 by simp
    also have "\<dots> = Some (Some (BinaryExprAST OP2 (BinaryExprAST OP1 a b) c), s6)"
      by (simp add: stop)
    finally show ?thesis using False start by (simp add: s6_def)
  next
    case True
    have inner: "ParseBinOpRHS (Suc (Suc k)) (p1 + 1) b s3 =
                   Some (Some (BinaryExprAST OP2 b c), s6)"
    proof -
      have "ParseBinOpRHS (Suc (Suc k)) (p1 + 1) b s3 =
              ParseBinOpRHS (Suc k) (p1 + 1) (BinaryExprAST OP2 b c) s6"
        using ParseBinOpRHS_combine [OF t3 _ C t5, of "p1 + 1" "Suc k" b] le p2(2) c1 True
        by simp
      also have "\<dots> = Some (Some (BinaryExprAST OP2 b c), s6)"
        using p1(2) by (simp add: stop)
      finally show ?thesis .
    qed
    have "ParseBinOpRHS (Suc (Suc (Suc k))) 0 a s1 =
            ParseBinOpRHS (Suc (Suc k)) 0 (BinaryExprAST OP1 a (BinaryExprAST OP2 b c)) s6"
      using ParseBinOpRHS_absorb [OF t1 _ B t3 True inner, of 0 a] le p1(2) c1 by simp
    also have "\<dots> = Some (Some (BinaryExprAST OP1 a (BinaryExprAST OP2 b c)), s6)"
      by (simp add: stop)
    finally show ?thesis using True start by (simp add: s6_def)
  qed
qed

theorem ParseExpression_two_operators_witness:
  "map_option fst (ParsePrimary 2 (start_state ''a+b*c'')) = Some (Some (VariableExprAST ''a''))
   \<and> BinopPrecedence (start_state ''a+b*c'') CHR ''+'' = Some 20
   \<and> BinopPrecedence (start_state ''a+b*c'') CHR ''*'' = Some 40
   \<and> map_option fst (ParseExpression 10 (start_state ''a+b*c'')) =
       Some (Some (BinaryExprAST CHR ''+'' (VariableExprAST ''a'')
                     (BinaryExprAST CHR ''*'' (VariableExprAST ''b'') (VariableExprAST ''c''))))
   \<and> BinopPrecedence (start_state ''a-b+c'') CHR ''-'' = Some 20
   \<and> BinopPrecedence (start_state ''a-b+c'') CHR ''+'' = Some 20
   \<and> map_option fst (ParseExpression 10 (start_state ''a-b+c'')) =
       Some (Some (BinaryExprAST CHR ''+''
                     (BinaryExprAST CHR ''-'' (VariableExprAST ''a'') (VariableExprAST ''b''))
                     (VariableExprAST ''c'')))"
proof -
  have asc: "isascii (of_char CHR ''+'')" "isascii (of_char CHR ''*'')"
    "isascii (of_char CHR ''-'')"
    by (simp_all add: isascii_def)
  have right: "map_option fst (ParsePrimary 2 (start_state ''a+b*c'')) =
        Some (Some (VariableExprAST ''a''))
     \<and> BinopPrecedence (start_state ''a+b*c'') CHR ''+'' = Some 20
     \<and> BinopPrecedence (start_state ''a+b*c'') CHR ''*'' = Some 40
     \<and> map_option fst (ParseExpression 10 (start_state ''a+b*c'')) =
       Some (Some (BinaryExprAST CHR ''+'' (VariableExprAST ''a'')
                     (BinaryExprAST CHR ''*'' (VariableExprAST ''b'') (VariableExprAST ''c''))))"
  proof -
    define s0 where "s0 = start_state ''a+b*c''"
    define s1 where "s1 = snd (the (ParsePrimary 2 s0))"
    define s3 where "s3 = snd (the (ParsePrimary 2 (snd (getNextToken s1))))"
    define s5 where "s5 = snd (the (ParsePrimary 2 (snd (getNextToken s3))))"
    have a': "map_option fst (ParsePrimary 2 s0) = Some (Some (VariableExprAST ''a''))"
      unfolding s0_def by code_simp
    then have a: "ParsePrimary 2 s0 = Some (Some (VariableExprAST ''a''), s1)"
      by (cases "ParsePrimary 2 s0") (auto simp: s1_def)
    have "map_option fst (ParsePrimary 2 (snd (getNextToken s1))) =
            Some (Some (VariableExprAST ''b''))"
      unfolding s1_def s0_def by code_simp
    then have b: "ParsePrimary 2 (snd (getNextToken s1)) = Some (Some (VariableExprAST ''b''), s3)"
      by (cases "ParsePrimary 2 (snd (getNextToken s1))") (auto simp: s3_def)
    have "map_option fst (ParsePrimary 2 (snd (getNextToken s3))) =
            Some (Some (VariableExprAST ''c''))"
      unfolding s3_def s1_def s0_def by code_simp
    then have c: "ParsePrimary 2 (snd (getNextToken s3)) = Some (Some (VariableExprAST ''c''), s5)"
      by (cases "ParsePrimary 2 (snd (getNextToken s3))") (auto simp: s5_def)
    have op1: "CurTok s1 = of_char CHR ''+''" unfolding s1_def s0_def by code_simp
    have op2: "CurTok s3 = of_char CHR ''*''" unfolding s3_def s1_def s0_def by code_simp
    have fin: "fst (GetTokPrecedence s5) = - 1"
      unfolding s5_def s3_def s1_def s0_def by code_simp
    have p1: "BinopPrecedence s0 CHR ''+'' = Some 20" unfolding s0_def by code_simp
    have p2: "BinopPrecedence s0 CHR ''*'' = Some 40" unfolding s0_def by code_simp
    from ParseExpression_two_operators [OF a op1 asc(1) b op2 asc(2) c fin p1 _ p2, of 10]
    have "map_option fst (ParseExpression 10 s0) =
         Some (Some (BinaryExprAST CHR ''+'' (VariableExprAST ''a'')
                       (BinaryExprAST CHR ''*'' (VariableExprAST ''b'') (VariableExprAST ''c''))))"
      by simp
    with a' p1 p2 show ?thesis by (simp add: s0_def)
  qed
  have left: "BinopPrecedence (start_state ''a-b+c'') CHR ''-'' = Some 20
     \<and> BinopPrecedence (start_state ''a-b+c'') CHR ''+'' = Some 20
     \<and> map_option fst (ParseExpression 10 (start_state ''a-b+c'')) =
       Some (Some (BinaryExprAST CHR ''+''
                     (BinaryExprAST CHR ''-'' (VariableExprAST ''a'') (VariableExprAST ''b''))
                     (VariableExprAST ''c'')))"
  proof -
    define s0 where "s0 = start_state ''a-b+c''"
    define s1 where "s1 = snd (the (ParsePrimary 2 s0))"
    define s3 where "s3 = snd (the (ParsePrimary 2 (snd (getNextToken s1))))"
    define s5 where "s5 = snd (the (ParsePrimary 2 (snd (getNextToken s3))))"
    have "map_option fst (ParsePrimary 2 s0) = Some (Some (VariableExprAST ''a''))"
      unfolding s0_def by code_simp
    then have a: "ParsePrimary 2 s0 = Some (Some (VariableExprAST ''a''), s1)"
      by (cases "ParsePrimary 2 s0") (auto simp: s1_def)
    have "map_option fst (ParsePrimary 2 (snd (getNextToken s1))) =
            Some (Some (VariableExprAST ''b''))"
      unfolding s1_def s0_def by code_simp
    then have b: "ParsePrimary 2 (snd (getNextToken s1)) = Some (Some (VariableExprAST ''b''), s3)"
      by (cases "ParsePrimary 2 (snd (getNextToken s1))") (auto simp: s3_def)
    have "map_option fst (ParsePrimary 2 (snd (getNextToken s3))) =
            Some (Some (VariableExprAST ''c''))"
      unfolding s3_def s1_def s0_def by code_simp
    then have c: "ParsePrimary 2 (snd (getNextToken s3)) = Some (Some (VariableExprAST ''c''), s5)"
      by (cases "ParsePrimary 2 (snd (getNextToken s3))") (auto simp: s5_def)
    have op1: "CurTok s1 = of_char CHR ''-''" unfolding s1_def s0_def by code_simp
    have op2: "CurTok s3 = of_char CHR ''+''" unfolding s3_def s1_def s0_def by code_simp
    have fin: "fst (GetTokPrecedence s5) = - 1"
      unfolding s5_def s3_def s1_def s0_def by code_simp
    have p1: "BinopPrecedence s0 CHR ''-'' = Some 20" unfolding s0_def by code_simp
    have p2: "BinopPrecedence s0 CHR ''+'' = Some 20" unfolding s0_def by code_simp
    from ParseExpression_two_operators [OF a op1 asc(3) b op2 asc(1) c fin p1 _ p2, of 10]
    have "map_option fst (ParseExpression 10 s0) =
         Some (Some (BinaryExprAST CHR ''+''
                     (BinaryExprAST CHR ''-'' (VariableExprAST ''a'') (VariableExprAST ''b''))
                     (VariableExprAST ''c'')))"
      by simp
    with p1 p2 show ?thesis by (simp add: s0_def)
  qed
  from right left show ?thesis by simp
qed

subsection \<open>Code generation of expressions\<close>

text \<open>
  Claim C5. A call whose callee is a function of the module with a number of parameters
  other than the number of arguments of the call returns the null pointer with the
  diagnostic \<^verbatim>\<open>Incorrect number of arguments passed.\<close> and changes nothing else: the
  check comes before the loop over the arguments, so the builder has no new instruction
  (no argument's and no call) and no argument has touched the binding table.
\<close>

theorem CallExprAST_codegen_arity_mismatch:
  assumes "TheModule s = Some M"
    and "getFunction M Callee = Some CalleeF"
    and "arg_size CalleeF \<noteq> length Args"
  shows "codegen (CallExprAST Callee Args) s =
           Inr (None, s\<lparr>stderr := stderr s @
                  ''LogError: Incorrect number of arguments passed.'' @ [CHR 0x0A]\<rparr>)"
  using assms by (simp add: LogErrorV_def LogError_def)

theorem CallExprAST_codegen_arity_mismatch_witness:
  "TheModule example_state = Some example_module
   \<and> getFunction example_module ''foo'' = Some (hd example_module)
   \<and> arg_size (hd example_module) \<noteq> length [VariableExprAST ''x'']
   \<and> codegen (CallExprAST ''foo'' [VariableExprAST ''x'']) example_state =
       Inr (None, example_state\<lparr>stderr := stderr example_state @
              ''LogError: Incorrect number of arguments passed.'' @ [CHR 0x0A]\<rparr>)"
proof -
  have m: "TheModule example_state = Some example_module"
    by (simp add: example_state_def)
  have f: "getFunction example_module ''foo'' = Some (hd example_module)"
    by (simp add: getFunction_def example_module_def)
  have a: "arg_size (hd example_module) \<noteq> length [VariableExprAST ''x'']"
    by (simp add: arg_size_def example_module_def)
  from CallExprAST_codegen_arity_mismatch [OF m f a] m f a show ?thesis by simp
qed

text \<open>
  Claim C6. A call whose callee is not the name of a function of the module returns the
  null pointer with the diagnostic \<^verbatim>\<open>unknown function referenced.\<close> and changes nothing
  else; in particular the builder has no call instruction added.
\<close>

theorem CallExprAST_codegen_unknown_function:
  assumes "TheModule s = Some M"
    and "getFunction M Callee = None"
  shows "codegen (CallExprAST Callee Args) s =
           Inr (None, s\<lparr>stderr := stderr s @
                  ''LogError: unknown function referenced.'' @ [CHR 0x0A]\<rparr>)"
  using assms by (simp add: LogErrorV_def LogError_def)

theorem CallExprAST_codegen_unknown_function_witness:
  "TheModule example_state = Some example_module
   \<and> getFunction example_module ''bar'' = None
   \<and> codegen (CallExprAST ''bar'' [NumberExprAST (strtod ''1'')]) example_state =
       Inr (None, example_state\<lparr>stderr := stderr example_state @
              ''LogError: unknown function referenced.'' @ [CHR 0x0A]\<rparr>)"
proof -
  have m: "TheModule example_state = Some example_module"
    by (simp add: example_state_def)
  have f: "getFunction example_module ''bar'' = None"
    by (simp add: getFunction_def example_module_def)
  from CallExprAST_codegen_unknown_function [OF m f] m f show ?thesis by simp
qed

text \<open>
  With a module in place code generation of an expression never faults and keeps the
  module, so the results of the two operands of a binary node always exist.
\<close>

lemma codegen_no_fault:
  "TheModule s = Some M \<Longrightarrow> \<exists>r s'. codegen e s = Inr (r, s') \<and> TheModule s' = Some M"
  "TheModule s = Some M \<Longrightarrow>
     \<exists>r s'. CallExprAST_codegen_loop es vs s = Inr (r, s') \<and> TheModule s' = Some M"
proof (induction e s and es vs s rule: codegen_CallExprAST_codegen_loop.induct)
  case (1 Val s)
  then show ?case by simp
next
  case (2 Name s)
  then show ?case
    by (auto simp: map_subscript_def LogErrorV_def LogError_def Let_def split: option.splits)
next
  case (3 Op LHS RHS s)
  from "3.IH"(1) [OF "3.prems"] obtain L s1 where
    l: "codegen LHS s = Inr (L, s1)" and m1: "TheModule s1 = Some M" by blast
  from "3.IH"(2) [OF l refl m1] obtain R s2 where
    r: "codegen RHS s1 = Inr (R, s2)" and m2: "TheModule s2 = Some M" by blast
  from l r m2 show ?case
    by (auto simp: CreateFAdd_def CreateFSub_def CreateFMul_def CreateFCmpULT_def
        CreateUIToFP_def Builder_Insert_def LogErrorV_def LogError_def
        split: option.splits)
next
  case (4 Callee Args s)
  show ?case
  proof (cases "getFunction M Callee")
    case None
    with "4.prems" show ?thesis by (simp add: LogErrorV_def LogError_def)
  next
    case (Some CalleeF)
    show ?thesis
    proof (cases "arg_size CalleeF \<noteq> length Args")
      case True
      with Some "4.prems" show ?thesis by (simp add: LogErrorV_def LogError_def)
    next
      case False
      from "4.IH" [OF "4.prems" Some False "4.prems"] obtain r s1 where
        "CallExprAST_codegen_loop Args [] s = Inr (r, s1)" "TheModule s1 = Some M" by blast
      with Some False "4.prems" show ?thesis
        by (auto simp: CreateCall_def Builder_Insert_def split: option.splits)
    qed
  qed
next
  case (5 ArgsV s)
  then show ?case by simp
next
  case (6 Arg Args ArgsV s)
  from "6.IH"(1) [OF "6.prems"] obtain r s1 where
    a: "codegen Arg s = Inr (r, s1)" and m1: "TheModule s1 = Some M" by blast
  show ?case
  proof (cases r)
    case None
    with a m1 show ?thesis by simp
  next
    case (Some V)
    from "6.IH"(2) [OF a [unfolded Some] refl refl m1] obtain r' s2 where
      "CallExprAST_codegen_loop Args (ArgsV @ [V]) s1 = Inr (r', s2)" "TheModule s2 = Some M"
      by blast
    with a Some show ?thesis by simp
  qed
qed

text \<open>
  Claim C7. With both operands generated, a binary node whose left or right operand came
  back null returns null and requests no instruction of its own. Otherwise \<^verbatim>\<open>+\<close>, \<^verbatim>\<open>-\<close>
  and \<^verbatim>\<open>*\<close> request one \<^verbatim>\<open>fadd\<close>, \<^verbatim>\<open>fsub\<close> or \<^verbatim>\<open>fmul\<close> of the two operand values and
  return it; \<^verbatim>\<open><\<close> requests an \<^verbatim>\<open>fcmp ult\<close> and then a \<^verbatim>\<open>uitofp\<close> of its result to
  \<^verbatim>\<open>double\<close>, which it returns; any other operator returns null with the diagnostic
  \<^verbatim>\<open>invalid binary operator\<close> and requests nothing.
\<close>

theorem BinaryExprAST_codegen_dispatch:
  assumes "codegen LHS s = Inr (L, s1)"
    and "codegen RHS s1 = Inr (R, s2)"
  shows "(L = None \<or> R = None \<longrightarrow>
            codegen (BinaryExprAST Op LHS RHS) s = Inr (None, s2))
       \<and> (\<forall>l r. L = Some l \<and> R = Some r \<longrightarrow>
            codegen (BinaryExprAST Op LHS RHS) s =
              (if Op = CHR ''+'' then
                 Inr (Some (Instruction (length (Builder s2))),
                      s2\<lparr>Builder := Builder s2 @ [FAdd l r ''addtmp'']\<rparr>)
               else if Op = CHR ''-'' then
                 Inr (Some (Instruction (length (Builder s2))),
                      s2\<lparr>Builder := Builder s2 @ [FSub l r ''subtmp'']\<rparr>)
               else if Op = CHR ''*'' then
                 Inr (Some (Instruction (length (Builder s2))),
                      s2\<lparr>Builder := Builder s2 @ [FMul l r ''multmp'']\<rparr>)
               else if Op = CHR ''<'' then
                 Inr (Some (Instruction (Suc (length (Builder s2)))),
                      s2\<lparr>Builder := Builder s2 @
                         [FCmpULT l r ''cmptmp'',
                          UIToFP (Instruction (length (Builder s2))) DoubleTy ''booltmp'']\<rparr>)
               else
                 Inr (None, s2\<lparr>stderr := stderr s2 @
                        ''LogError: invalid binary operator'' @ [CHR 0x0A]\<rparr>)))"
  using assms
  by (auto simp add: CreateFAdd_def CreateFSub_def CreateFMul_def CreateFCmpULT_def
        CreateUIToFP_def Builder_Insert_def LogErrorV_def LogError_def
      split: option.splits)

theorem BinaryExprAST_codegen_dispatch_witness:
  "codegen (NumberExprAST (strtod ''1'')) (initial_state []) =
      Inr (Some (ConstantFP (strtod ''1'')), initial_state [])
   \<and> codegen (VariableExprAST ''x'') (initial_state []) =
      Inr (None, (initial_state [])
         \<lparr>stderr := ''LogError: Unknown variable name'' @ [CHR 0x0A],
          NamedValues := [''x'' \<mapsto> None]\<rparr>)
   \<and> codegen (BinaryExprAST CHR ''+'' (NumberExprAST (strtod ''1'')) (VariableExprAST ''x''))
        (initial_state []) =
      Inr (None, (initial_state [])
         \<lparr>stderr := ''LogError: Unknown variable name'' @ [CHR 0x0A],
          NamedValues := [''x'' \<mapsto> None]\<rparr>)
   \<and> codegen (BinaryExprAST CHR ''<'' (NumberExprAST (strtod ''1'')) (NumberExprAST (strtod ''2'')))
        (initial_state []) =
      Inr (Some (Instruction 1), (initial_state [])
         \<lparr>Builder := [FCmpULT (ConstantFP (strtod ''1'')) (ConstantFP (strtod ''2'')) ''cmptmp'',
                      UIToFP (Instruction 0) DoubleTy ''booltmp'']\<rparr>)"
proof -
  let ?s = "initial_state []"
  let ?s1 = "?s\<lparr>stderr := ''LogError: Unknown variable name'' @ [CHR 0x0A],
          NamedValues := [''x'' \<mapsto> None]\<rparr>"
  have one: "codegen (NumberExprAST (strtod ''1'')) ?s = Inr (Some (ConstantFP (strtod ''1'')), ?s)"
    by simp
  have two: "codegen (NumberExprAST (strtod ''2'')) ?s = Inr (Some (ConstantFP (strtod ''2'')), ?s)"
    by simp
  have x: "codegen (VariableExprAST ''x'') ?s = Inr (None, ?s1)"
    by (simp add: map_subscript_def LogErrorV_def LogError_def initial_state_def)
  have b: "Builder ?s = []" by (simp add: initial_state_def)
  from BinaryExprAST_codegen_dispatch [OF one x, of "CHR ''+''"]
  have p: "codegen (BinaryExprAST CHR ''+'' (NumberExprAST (strtod ''1'')) (VariableExprAST ''x'')) ?s
      = Inr (None, ?s1)" by simp
  from BinaryExprAST_codegen_dispatch [OF one two, of "CHR ''<''"] b
  have q: "codegen (BinaryExprAST CHR ''<'' (NumberExprAST (strtod ''1'')) (NumberExprAST (strtod ''2''))) ?s
      = Inr (Some (Instruction 1), ?s
         \<lparr>Builder := [FCmpULT (ConstantFP (strtod ''1'')) (ConstantFP (strtod ''2'')) ''cmptmp'',
                      UIToFP (Instruction 0) DoubleTy ''booltmp'']\<rparr>)" by simp
  from one x p q show ?thesis by simp
qed

text \<open>
  Claim C10. A variable node whose name has no entry in \<^verbatim>\<open>NamedValues\<close> returns the null
  pointer with the diagnostic \<^verbatim>\<open>Unknown variable name\<close>, and the look-up has added an
  entry for the name, holding the null pointer: the key set of the table has grown by
  the name.
\<close>

theorem VariableExprAST_codegen_unbound:
  assumes "NamedValues s Name = None"
  shows "\<exists>s1. codegen (VariableExprAST Name) s = Inr (None, s1)
           \<and> NamedValues s1 = (NamedValues s)(Name \<mapsto> None)
           \<and> dom (NamedValues s1) = insert Name (dom (NamedValues s))
           \<and> Name \<notin> dom (NamedValues s)
           \<and> stderr s1 = stderr s @ ''LogError: Unknown variable name'' @ [CHR 0x0A]"
  using assms by (auto simp add: map_subscript_def LogErrorV_def LogError_def)

theorem VariableExprAST_codegen_unbound_witness:
  "NamedValues (initial_state []) ''x'' = None
   \<and> (\<exists>s1. codegen (VariableExprAST ''x'') (initial_state []) = Inr (None, s1)
         \<and> dom (NamedValues s1) = {''x''}
         \<and> NamedValues s1 ''x'' = Some None)"
proof -
  have n: "NamedValues (initial_state []) ''x'' = None"
    by (simp add: initial_state_def)
  have d: "dom (NamedValues (initial_state [])) = {}"
    by (simp add: initial_state_def)
  from VariableExprAST_codegen_unbound [OF n] obtain s1 where
    "codegen (VariableExprAST ''x'') (initial_state []) = Inr (None, s1)"
    "NamedValues s1 = (NamedValues (initial_state []))(''x'' \<mapsto> None)"
    "dom (NamedValues s1) = insert ''x'' (dom (NamedValues (initial_state [])))"
    by blast
  with n d show ?thesis by auto
qed

subsection \<open>Code generation of prototypes\<close>

text \<open>
  Claim C3, at the prototype \<^verbatim>\<open>foo(x y)\<close> and an empty module: the function
  \<^verbatim>\<open>foo\<close> with two \<^verbatim>\<open>double\<close> parameters, result \<^verbatim>\<open>double\<close> and external linkage is
  added to the module, and the call ends without a return value.
\<close>

theorem PrototypeAST_codegen_no_return:
  "PrototypeAST_codegen (PrototypeAST ''foo'' [''x'', ''y''])
     ((initial_state [])\<lparr>TheModule := Some []\<rparr>) =
   (No_return_statement,
    (initial_state [])\<lparr>TheModule := Some
      [\<lparr> fn_name = ''foo'', fn_return_type = DoubleTy, fn_params = [DoubleTy, DoubleTy],
         fn_is_var_arg = False, fn_linkage = ExternalLinkage \<rparr>]\<rparr>)"
  by (simp add: PrototypeAST_codegen_def Function_Create_def FunctionType_get_def
      numeral_2_eq_2 Let_def)

end
